theory Spec2Isabelle
  imports Complex_Main "HOL-Library.Word"
begin

section \<open>JavaScript strings\<close>

text \<open>
  A JavaScript string is a sequence of 16-bit code units. String literals of
  \<^verbatim>\<open>script.js\<close> are ASCII; \<open>ascii\<close> turns an ASCII literal into its code units.
  The empty string is the only falsy string.
\<close>

type_synonym jschar = "16 word"
type_synonym jsstring = "jschar list"

definition ascii :: "string \<Rightarrow> jsstring" where
  "ascii s = map (\<lambda>c. of_nat (of_char c)) s"

section \<open>DOM class lists\<close>

text \<open>
  \<^verbatim>\<open>element.classList\<close> is an ordered set of tokens: \<^verbatim>\<open>add\<close> appends a token
  that is absent, \<^verbatim>\<open>remove\<close> deletes it, and \<^verbatim>\<open>toggle(token, force)\<close> adds when
  \<^verbatim>\<open>force\<close> is true and removes when it is false.
\<close>

definition classList_add :: "jsstring \<Rightarrow> jsstring list \<Rightarrow> jsstring list" where
  "classList_add tok cs = (if tok \<in> set cs then cs else cs @ [tok])"

definition classList_remove :: "jsstring \<Rightarrow> jsstring list \<Rightarrow> jsstring list" where
  "classList_remove tok cs = removeAll tok cs"

definition classList_toggle :: "jsstring \<Rightarrow> bool \<Rightarrow> jsstring list \<Rightarrow> jsstring list" where
  "classList_toggle tok force cs =
     (if force then classList_add tok cs else classList_remove tok cs)"

section \<open>Numbers\<close>

text \<open>
  A JavaScript number is an IEEE 754 double. The model keeps the finite values as reals
  and the values an operation on finite values can leave the reals with (the two
  infinities and NaN) as values of their own. Every arithmetic operation of the source
  is written with the rounding \<open>rnd\<close> of its exact result, and nothing is assumed of
  \<open>rnd\<close> but what \<open>rounding\<close> says, which round-to-nearest on doubles satisfies on
  results in the finite range: it is monotone, and it is exact on the halves of the
  integers up to \<open>2^53\<close>. The sign of zero is not modelled.
\<close>

definition rounding :: "(real \<Rightarrow> real) \<Rightarrow> bool" where
  "rounding rnd \<longleftrightarrow>
     (\<forall>x y. x \<le> y \<longrightarrow> rnd x \<le> rnd y) \<and>
     (\<forall>n::int. \<bar>n\<bar> \<le> 2 ^ 53 \<longrightarrow> rnd (of_int n / 2) = of_int n / 2)"

text \<open>
  Roundings to evaluate with: the exact one, and round-half-up to \<open>k\<close> binary
  places (which loses information, as the rounding of doubles does).
\<close>

definition exact :: "real \<Rightarrow> real" where
  "exact x = x"

definition round_to_bits :: "nat \<Rightarrow> real \<Rightarrow> real" where
  "round_to_bits k x = of_int \<lfloor>x * 2 ^ k + 1 / 2\<rfloor> / 2 ^ k"

text \<open>
  Round to nearest with a significand of 53 bits, which is what a double has (a tie
  goes upward, and the exponent is not bounded).
\<close>

definition ulp53 :: "real \<Rightarrow> real" where
  "ulp53 x = 2 powr (of_int \<lfloor>log 2 \<bar>x\<bar>\<rfloor> - 52)"

definition round53 :: "real \<Rightarrow> real" where
  "round53 x = (if x = 0 then 0 else of_int \<lfloor>x / ulp53 x + 1 / 2\<rfloor> * ulp53 x)"

datatype number = Finite real | PosInfinity | NegInfinity | NaN

text \<open>
  \<^verbatim>\<open>a / b\<close> on finite operands. A zero divisor here is the \<^verbatim>\<open>+0\<close> that the
  subtraction of two equal integers gives.
\<close>

definition js_divide :: "(real \<Rightarrow> real) \<Rightarrow> real \<Rightarrow> real \<Rightarrow> number" where
  "js_divide rnd a b =
     (if b = 0 then (if a = 0 then NaN else if 0 < a then PosInfinity else NegInfinity)
      else Finite (rnd (a / b)))"

text \<open>\<^verbatim>\<open>x * c\<close> for a finite positive constant \<open>c\<close>.\<close>

fun js_times :: "(real \<Rightarrow> real) \<Rightarrow> number \<Rightarrow> real \<Rightarrow> number" where
  "js_times rnd (Finite x) c = Finite (rnd (x * c))"
| "js_times rnd PosInfinity c = PosInfinity"
| "js_times rnd NegInfinity c = NegInfinity"
| "js_times rnd NaN c = NaN"

text \<open>\<^verbatim>\<open>Math.min(x, c)\<close> for a finite \<open>c\<close>: NaN if \<open>x\<close> is NaN.\<close>

fun Math_min :: "number \<Rightarrow> real \<Rightarrow> number" where
  "Math_min (Finite x) c = Finite (min x c)"
| "Math_min PosInfinity c = Finite c"
| "Math_min NegInfinity c = NegInfinity"
| "Math_min NaN c = NaN"

section \<open>Utilities\<close>

text \<open>
  \<^verbatim>\<open>easeInOutCubic\<close> (lines 59-61), on a finite argument. The two arms of the
  conditional are named, to speak of each at \<open>t = 0.5\<close>. JavaScript multiplies from
  the left, so \<^verbatim>\<open>4 * t * t * t\<close> is \<^verbatim>\<open>((4 * t) * t) * t\<close>.
\<close>

definition easeIn_branch :: "(real \<Rightarrow> real) \<Rightarrow> real \<Rightarrow> real" where
  "easeIn_branch rnd t = rnd (rnd (rnd (4 * t) * t) * t)"

definition easeOut_branch :: "(real \<Rightarrow> real) \<Rightarrow> real \<Rightarrow> real" where
  "easeOut_branch rnd t =
     rnd (rnd (rnd (rnd (t - 1) * rnd (rnd (2 * t) - 2)) * rnd (rnd (2 * t) - 2)) + 1)"

definition easeInOutCubic :: "(real \<Rightarrow> real) \<Rightarrow> real \<Rightarrow> real" where
  "easeInOutCubic rnd t =
     (if t < 1 / 2 then easeIn_branch rnd t else easeOut_branch rnd t)"

text \<open>
  What \<^verbatim>\<open>getScrollProgress\<close> reads: \<^verbatim>\<open>window.innerHeight\<close> and
  \<^verbatim>\<open>document.documentElement.scrollHeight\<close> (integers), \<^verbatim>\<open>window.pageYOffset\<close> and
  \<^verbatim>\<open>document.documentElement.scrollTop\<close> (finite doubles).
\<close>

record scroll_metrics =
  innerHeight :: int
  scrollHeight :: int
  pageYOffset :: real
  documentElement_scrollTop :: real

text \<open>\<^verbatim>\<open>a || b\<close> on numbers: \<open>a\<close> unless it is zero.\<close>

definition js_or :: "real \<Rightarrow> real \<Rightarrow> real" where
  "js_or a b = (if a \<noteq> 0 then a else b)"

text \<open>\<^verbatim>\<open>getScrollProgress\<close> (lines 63-69).\<close>

definition getScrollProgress :: "(real \<Rightarrow> real) \<Rightarrow> scroll_metrics \<Rightarrow> number" where
  "getScrollProgress rnd w =
     (let winHeight = innerHeight w;
          docHeight = scrollHeight w;
          scrollTop = js_or (pageYOffset w) (documentElement_scrollTop w);
          trackLength = docHeight - winHeight
      in Math_min (js_divide rnd scrollTop (of_int trackLength)) 1)"

text \<open>
  \<^verbatim>\<open>progressBar.update\<close> (lines 104-107): the number it writes, followed by a percent
  sign, into \<^verbatim>\<open>elements.progressBar.style.width\<close>.
\<close>

definition progressBar_update :: "(real \<Rightarrow> real) \<Rightarrow> scroll_metrics \<Rightarrow> number" where
  "progressBar_update rnd w = js_times rnd (getScrollProgress rnd w) 100"

section \<open>Navigation\<close>

text \<open>
  The state the navigation module reads and writes: the two script variables
  \<^verbatim>\<open>isNavOpen\<close> and \<^verbatim>\<open>currentSection\<close>, the class lists of
  \<^verbatim>\<open>elements.mobileToggle\<close> and \<^verbatim>\<open>elements.navLinks\<close>, the inline style
  \<^verbatim>\<open>document.body.style.overflow\<close> (the empty string when unset), the
  \<^verbatim>\<open>.nav-link\<close> elements with their \<^verbatim>\<open>data-section\<close> attribute
  (\<open>None\<close> when \<^verbatim>\<open>getAttribute\<close> returns null), and \<^verbatim>\<open>window.innerWidth\<close>.
  The handlers of \<^verbatim>\<open>setupMobileToggle\<close> are installed only when
  \<^verbatim>\<open>elements.mobileToggle\<close> exists, and they use \<^verbatim>\<open>elements.navLinks\<close> and
  \<^verbatim>\<open>elements.navbar\<close> unguarded: the model is of pages that have the three elements.
\<close>

record nav_link =
  data_section :: "jsstring option"
  link_classList :: "jsstring list"

record nav_state =
  isNavOpen :: bool
  currentSection :: jsstring
  mobileToggle_classList :: "jsstring list"
  navLinks_classList :: "jsstring list"
  body_style_overflow :: jsstring
  navLinkItems :: "nav_link list"
  innerWidth :: int

text \<open>
  The script starts with \<^verbatim>\<open>isNavOpen = false\<close> and \<^verbatim>\<open>currentSection = 'home'\<close>
  (lines 28-29); everything else is what the page provides.
\<close>

definition initial_nav ::
  "jsstring list \<Rightarrow> jsstring list \<Rightarrow> jsstring \<Rightarrow> nav_link list \<Rightarrow> int \<Rightarrow> nav_state" where
  "initial_nav tcs ncs ov links w =
     \<lparr>isNavOpen = False, currentSection = ascii ''home'',
      mobileToggle_classList = tcs, navLinks_classList = ncs,
      body_style_overflow = ov, navLinkItems = links, innerWidth = w\<rparr>"

subsection \<open>Active link (scroll spy)\<close>

text \<open>
  \<^verbatim>\<open>setActiveLink\<close> (lines 144-152). Besides the new state the model returns the
  \<^verbatim>\<open>classList.toggle\<close> calls the function made, as pairs of the link's index and
  the \<^verbatim>\<open>force\<close> argument: the early return makes none.
\<close>

type_synonym toggle_call = "nat \<times> bool"

definition setActiveLink :: "jsstring \<Rightarrow> nav_state \<Rightarrow> toggle_call list \<times> nav_state" where
  "setActiveLink sectionId s =
     (if currentSection s = sectionId then ([], s)
      else
        (map (\<lambda>(i, link). (i, data_section link = Some sectionId))
             (enumerate 0 (navLinkItems s)),
         s\<lparr>currentSection := sectionId,
           navLinkItems :=
             map (\<lambda>link. link\<lparr>link_classList :=
                    classList_toggle (ascii ''active'')
                      (data_section link = Some sectionId) (link_classList link)\<rparr>)
                 (navLinkItems s)\<rparr>))"

text \<open>
  The observer callback of \<^verbatim>\<open>setupActiveState\<close> (lines 129-135): for every entry
  that is intersecting, in order, \<^verbatim>\<open>setActiveLink(entry.target.id)\<close>.
\<close>

record io_entry =
  target_id :: jsstring
  isIntersecting :: bool

fun activeState_callback :: "io_entry list \<Rightarrow> nav_state \<Rightarrow> toggle_call list \<times> nav_state" where
  "activeState_callback [] s = ([], s)"
| "activeState_callback (e # es) s =
     (if isIntersecting e then
        (case setActiveLink (target_id e) s of
           (calls, s') \<Rightarrow>
             (case activeState_callback es s' of
                (calls', s'') \<Rightarrow> (calls @ calls', s'')))
      else activeState_callback es s)"

text \<open>The observer delivers batch after batch; the state persists between them.\<close>

fun activeState_callbacks ::
  "io_entry list list \<Rightarrow> nav_state \<Rightarrow> toggle_call list \<times> nav_state" where
  "activeState_callbacks [] s = ([], s)"
| "activeState_callbacks (es # ess) s =
     (case activeState_callback es s of
        (calls, s') \<Rightarrow>
          (case activeState_callbacks ess s' of
             (calls', s'') \<Rightarrow> (calls @ calls', s'')))"

subsection \<open>Mobile menu\<close>

text \<open>The click handler of the toggle button (lines 157-164).\<close>

definition mobileToggle_click :: "nav_state \<Rightarrow> nav_state" where
  "mobileToggle_click s =
     (let opened = \<not> isNavOpen s in
      s\<lparr>isNavOpen := opened,
        mobileToggle_classList :=
          classList_toggle (ascii ''active'') opened (mobileToggle_classList s),
        navLinks_classList :=
          classList_toggle (ascii ''active'') opened (navLinks_classList s),
        body_style_overflow := (if opened then ascii ''hidden'' else [])\<rparr>)"

text \<open>\<^verbatim>\<open>closeMobileNav\<close> (lines 183-188).\<close>

definition closeMobileNav :: "nav_state \<Rightarrow> nav_state" where
  "closeMobileNav s =
     s\<lparr>isNavOpen := False,
       mobileToggle_classList := classList_remove (ascii ''active'') (mobileToggle_classList s),
       navLinks_classList := classList_remove (ascii ''active'') (navLinks_classList s),
       body_style_overflow := []\<rparr>"

text \<open>The click handler of every nav link (lines 168-172).\<close>

definition navLink_click :: "nav_state \<Rightarrow> nav_state" where
  "navLink_click s = (if innerWidth s \<le> 768 then closeMobileNav s else s)"

text \<open>
  The click handler of the document (lines 176-180); the argument is
  \<^verbatim>\<open>elements.navbar.contains(e.target)\<close>.
\<close>

definition document_click :: "bool \<Rightarrow> nav_state \<Rightarrow> nav_state" where
  "document_click in_navbar s =
     (if isNavOpen s \<and> \<not> in_navbar then closeMobileNav s else s)"

text \<open>
  The keydown handler of \<^verbatim>\<open>setupKeyboardNavigation\<close> (lines 373-377); the argument
  is \<^verbatim>\<open>e.key\<close>.
\<close>

definition document_keydown :: "jsstring \<Rightarrow> nav_state \<Rightarrow> nav_state" where
  "document_keydown key s =
     (if key = ascii ''Escape'' \<and> isNavOpen s then closeMobileNav s else s)"

text \<open>
  The user events that reach these handlers. A click carries the element it hit and
  whether that element lies inside \<^verbatim>\<open>elements.navbar\<close>; it runs the handler of the
  element hit and then, bubbling, the handler of the document.
\<close>

datatype click_target = ToggleButton | NavLink | Elsewhere

datatype event = Click click_target bool | Keydown jsstring

fun dispatch :: "event \<Rightarrow> nav_state \<Rightarrow> nav_state" where
  "dispatch (Click ToggleButton in_navbar) s = document_click in_navbar (mobileToggle_click s)"
| "dispatch (Click NavLink in_navbar) s = document_click in_navbar (navLink_click s)"
| "dispatch (Click Elsewhere in_navbar) s = document_click in_navbar s"
| "dispatch (Keydown key) s = document_keydown key s"

text \<open>
  The closed menu: the flag is false, neither element carries \<^verbatim>\<open>active\<close>, and the
  body's inline overflow is unset.
\<close>

definition menu_closed :: "nav_state \<Rightarrow> bool" where
  "menu_closed s \<longleftrightarrow>
     \<not> isNavOpen s \<and> ascii ''active'' \<notin> set (mobileToggle_classList s) \<and>
     ascii ''active'' \<notin> set (navLinks_classList s) \<and> body_style_overflow s = []"

text \<open>
  A page to evaluate the handlers on: a toggle button, a link container, and two nav
  links for the sections \<^verbatim>\<open>home\<close> and \<^verbatim>\<open>about\<close>, none of them active, in a window
  of the given width.
\<close>

definition example_links :: "nav_link list" where
  "example_links =
     [\<lparr>data_section = Some (ascii ''home''), link_classList = [ascii ''nav-link'']\<rparr>,
      \<lparr>data_section = Some (ascii ''about''), link_classList = [ascii ''nav-link'']\<rparr>]"

definition example_nav :: "int \<Rightarrow> nav_state" where
  "example_nav w =
     initial_nav [ascii ''mobile-toggle''] [ascii ''nav-links''] [] example_links w"

section \<open>Reveal animations\<close>

text \<open>
  The elements of \<^verbatim>\<open>elements.revealElements\<close> are known by their index. The state
  is the class list of each, the targets the observer observes, and the timeouts that
  are pending, each with its delay in milliseconds and the element its callback adds
  \<^verbatim>\<open>show\<close> to.
\<close>

record reveal_state =
  reveal_classList :: "jsstring list list"
  observing :: "nat list"
  reveal_timeouts :: "(nat \<times> nat) list"

text \<open>
  \<^verbatim>\<open>revealAnimations.init\<close> (lines 219-237) on a page whose reveal elements have the
  given class lists: nothing is observed when there are none, each of them otherwise.
\<close>

definition revealAnimations_init :: "jsstring list list \<Rightarrow> reveal_state" where
  "revealAnimations_init classes =
     \<lparr>reveal_classList = classes,
      observing = (if length classes = 0 then [] else [0..<length classes]),
      reveal_timeouts = []\<rparr>"

record reveal_entry =
  entry_target :: nat
  entry_isIntersecting :: bool

text \<open>
  The observer callback (lines 222-230), from the entry of index \<open>i\<close> on: an
  intersecting entry sets a timeout of \<open>i * 50\<close> milliseconds and unobserves its
  target at once.
\<close>

fun reveal_callback :: "nat \<Rightarrow> reveal_entry list \<Rightarrow> reveal_state \<Rightarrow> reveal_state" where
  "reveal_callback i [] s = s"
| "reveal_callback i (e # es) s =
     reveal_callback (Suc i) es
       (if entry_isIntersecting e then
          s\<lparr>reveal_timeouts := reveal_timeouts s @ [(i * 50, entry_target e)],
            observing := removeAll (entry_target e) (observing s)\<rparr>
        else s)"

text \<open>The callback of a timeout (lines 225-227): \<^verbatim>\<open>entry.target.classList.add('show')\<close>.\<close>

definition reveal_timeout :: "nat \<Rightarrow> reveal_state \<Rightarrow> reveal_state" where
  "reveal_timeout el s =
     (if el < length (reveal_classList s) then
        s\<lparr>reveal_classList :=
            (reveal_classList s)[el := classList_add (ascii ''show'') (reveal_classList s ! el)]\<rparr>
      else s)"

text \<open>
  What can happen to the state: the observer delivers a batch of entries (any batch:
  the model does not rely on the browser reporting observed targets only), or the
  pending timeout at some position of the queue fires.
\<close>

datatype reveal_event = Intersection "reveal_entry list" | Timeout nat

fun reveal_step :: "reveal_event \<Rightarrow> reveal_state \<Rightarrow> reveal_state" where
  "reveal_step (Intersection es) s = reveal_callback 0 es s"
| "reveal_step (Timeout k) s =
     (if k < length (reveal_timeouts s) then
        reveal_timeout (snd (reveal_timeouts s ! k))
          (s\<lparr>reveal_timeouts := take k (reveal_timeouts s) @ drop (Suc k) (reveal_timeouts s)\<rparr>)
      else s)"

fun reveal_run :: "reveal_event list \<Rightarrow> reveal_state \<Rightarrow> reveal_state" where
  "reveal_run [] s = s"
| "reveal_run (ev # evs) s = reveal_run evs (reveal_step ev s)"

definition shown :: "nat \<Rightarrow> reveal_state \<Rightarrow> bool" where
  "shown el s \<longleftrightarrow> el < length (reveal_classList s) \<and> ascii ''show'' \<in> set (reveal_classList s ! el)"

text \<open>
  The states a run goes through, and the number of times a sequence of observations
  goes from false to true.
\<close>

fun reveal_trace :: "reveal_event list \<Rightarrow> reveal_state \<Rightarrow> reveal_state list" where
  "reveal_trace [] s = [s]"
| "reveal_trace (ev # evs) s = s # reveal_trace evs (reveal_step ev s)"

fun rises :: "bool list \<Rightarrow> nat" where
  "rises (a # b # bs) = (if \<not> a \<and> b then 1 else 0) + rises (b # bs)"
| "rises bs = 0"

text \<open>The invariant of the runs: the target of a pending timeout is not observed.\<close>

definition timeouts_unobserved :: "reveal_state \<Rightarrow> bool" where
  "timeouts_unobserved s \<longleftrightarrow>
     list_all (\<lambda>t. snd t \<notin> set (observing s)) (reveal_timeouts s)"

section \<open>Regular expressions\<close>

text \<open>
  The fragment of JavaScript's regular expressions that \<^verbatim>\<open>isValidEmail\<close> uses: a
  character, a negated class of characters and of the escape \<^verbatim>\<open>\s\<close>, the assertions
  \<^verbatim>\<open>^\<close> and \<^verbatim>\<open>$\<close> (without the multiline flag), sequence and \<^verbatim>\<open>+\<close>. Without the
  unicode flag a pattern character matches one code unit.
\<close>

text \<open>
  The code units that \<^verbatim>\<open>\s\<close> matches and \<^verbatim>\<open>trim\<close> strips: the white space and the line
  terminators of ECMAScript.
\<close>

definition js_whitespace :: "jschar \<Rightarrow> bool" where
  "js_whitespace c \<longleftrightarrow>
     c \<in> set [0x09, 0x0A, 0x0B, 0x0C, 0x0D, 0x20, 0xA0, 0x1680, 0x2028, 0x2029, 0x202F,
              0x205F, 0x3000, 0xFEFF] \<or> (0x2000 \<le> c \<and> c \<le> 0x200A)"

datatype class_item = Lit jschar | Space

fun class_item_matches :: "jschar \<Rightarrow> class_item \<Rightarrow> bool" where
  "class_item_matches c (Lit d) = (c = d)"
| "class_item_matches c Space = js_whitespace c"

datatype regex =
  Chr jschar | NegClass "class_item list" | Bol | Eol | Seq regex regex | Plus regex

text \<open>
  The matcher: from a position and the input that remains there, every position (with
  the input that remains) at which a match of the pattern can end. An iteration of
  \<^verbatim>\<open>+\<close> after the first starts only where the one before it has consumed input.
\<close>

fun ends :: "regex \<Rightarrow> nat \<times> jsstring \<Rightarrow> (nat \<times> jsstring) list" where
  "ends (Chr c) (p, xs) =
     (case xs of [] \<Rightarrow> [] | x # xs' \<Rightarrow> if x = c then [(Suc p, xs')] else [])"
| "ends (NegClass items) (p, xs) =
     (case xs of [] \<Rightarrow> []
      | x # xs' \<Rightarrow> if \<not> list_ex (class_item_matches x) items then [(Suc p, xs')] else [])"
| "ends Bol (p, xs) = (if p = 0 then [(p, xs)] else [])"
| "ends Eol (p, xs) = (if xs = [] then [(p, xs)] else [])"
| "ends (Seq r1 r2) (p, xs) = concat (map (ends r2) (ends r1 (p, xs)))"
| "ends (Plus r) (p, xs) =
     concat (map (\<lambda>(p', xs'). (p', xs') #
                   (if length xs' < length xs then ends (Plus r) (p', xs') else []))
               (ends r (p, xs)))"

text \<open>\<^verbatim>\<open>regex.test(s)\<close>: a match that starts at some position of \<open>s\<close>.\<close>

definition regex_test :: "regex \<Rightarrow> jsstring \<Rightarrow> bool" where
  "regex_test r s =
     list_ex (\<lambda>start. ends r (start, drop start s) \<noteq> []) [0..<Suc (length s)]"

section \<open>Contact form\<close>

text \<open>\<^verbatim>\<open>String.prototype.trim\<close>.\<close>

definition trim :: "jsstring \<Rightarrow> jsstring" where
  "trim s = rev (dropWhile js_whitespace (rev (dropWhile js_whitespace s)))"

text \<open>
  The state of the form: \<^verbatim>\<open>elements.formStatus\<close> (\<open>None\<close> when the page has no such
  element, which \<^verbatim>\<open>showStatus\<close> checks), the submit button that
  \<^verbatim>\<open>simulateSubmission\<close> looks up in the form and uses unguarded, the three controls
  with their current and their default value, and the timeouts that are pending, each
  with its delay in milliseconds.
\<close>

record status_element =
  status_textContent :: jsstring
  status_className :: jsstring

record button_element =
  button_textContent :: jsstring
  button_disabled :: bool

record form_control =
  control_value :: jsstring
  control_defaultValue :: jsstring

record form_data =
  name :: jsstring
  email :: jsstring
  message :: jsstring

datatype timeout_callback = HideStatus | FinishSubmission form_data jsstring

record form_state =
  formStatus :: "status_element option"
  submitButton :: button_element
  name_control :: form_control
  email_control :: form_control
  message_control :: form_control
  form_timeouts :: "(nat \<times> timeout_callback) list"

text \<open>\<^verbatim>\<open>showStatus\<close> (lines 308-318).\<close>

definition showStatus :: "jsstring \<Rightarrow> jsstring \<Rightarrow> form_state \<Rightarrow> form_state" where
  "showStatus msg type s =
     (case formStatus s of
        None \<Rightarrow> s
      | Some el \<Rightarrow>
          s\<lparr>formStatus :=
              Some (el\<lparr>status_textContent := msg,
                       status_className := ascii ''form-status '' @ type\<rparr>),
            form_timeouts := form_timeouts s @ [(5000, HideStatus)]\<rparr>)"

text \<open>\<^verbatim>\<open>isValidEmail\<close> (lines 281-284), with its pattern \<^verbatim>\<open>/^[^\s@]+@[^\s@]+\.[^\s@]+$/\<close>.\<close>

definition emailRegex :: regex where
  "emailRegex =
     Seq Bol (Seq (Plus (NegClass [Space, Lit 0x40])) (Seq (Chr 0x40)
       (Seq (Plus (NegClass [Space, Lit 0x40])) (Seq (Chr 0x2E)
         (Seq (Plus (NegClass [Space, Lit 0x40])) Eol)))))"

definition isValidEmail :: "jsstring \<Rightarrow> bool" where
  "isValidEmail email_address = regex_test emailRegex email_address"

text \<open>\<^verbatim>\<open>validateForm\<close> (lines 260-279): the result and the state it leaves.\<close>

definition validateForm :: "form_data \<Rightarrow> form_state \<Rightarrow> bool \<times> form_state" where
  "validateForm data s =
     (if trim (name data) = [] then
        (False, showStatus (ascii ''Please enter your name.'') (ascii ''error'') s)
      else if \<not> isValidEmail (email data) then
        (False, showStatus (ascii ''Please enter a valid email address.'') (ascii ''error'') s)
      else if trim (message data) = [] then
        (False, showStatus (ascii ''Please enter your message.'') (ascii ''error'') s)
      else (True, s))"

text \<open>\<^verbatim>\<open>elements.contactForm.reset()\<close>: every control back to its default value.\<close>

definition form_reset :: "form_state \<Rightarrow> form_state" where
  "form_reset s =
     s\<lparr>name_control := (name_control s)\<lparr>control_value := control_defaultValue (name_control s)\<rparr>,
       email_control := (email_control s)\<lparr>control_value := control_defaultValue (email_control s)\<rparr>,
       message_control :=
         (message_control s)\<lparr>control_value := control_defaultValue (message_control s)\<rparr>\<rparr>"

text \<open>
  \<^verbatim>\<open>simulateSubmission\<close> (lines 286-306): the part that runs at once. The callback it
  sets for 1500 milliseconds later keeps the data and the label it read.
\<close>

definition simulateSubmission :: "form_data \<Rightarrow> form_state \<Rightarrow> form_state" where
  "simulateSubmission data s =
     (let originalText = button_textContent (submitButton s) in
      s\<lparr>submitButton :=
          (submitButton s)\<lparr>button_textContent := ascii ''Sending...'', button_disabled := True\<rparr>,
        form_timeouts := form_timeouts s @ [(1500, FinishSubmission data originalText)]\<rparr>)"

text \<open>
  The callbacks of the timeouts: the one of \<^verbatim>\<open>showStatus\<close> (lines 315-317) and the one
  of \<^verbatim>\<open>simulateSubmission\<close> (lines 295-305).
\<close>

fun run_timeout :: "timeout_callback \<Rightarrow> form_state \<Rightarrow> form_state" where
  "run_timeout HideStatus s =
     (case formStatus s of
        None \<Rightarrow> s
      | Some el \<Rightarrow> s\<lparr>formStatus := Some (el\<lparr>status_className := ascii ''form-status''\<rparr>)\<rparr>)"
| "run_timeout (FinishSubmission data originalText) s =
     (let s1 = showStatus
                 (ascii ''Thanks, '' @ name data @ ascii ''! I'll get back to you at '' @
                  email data @ ascii '' soon.'')
                 (ascii ''success'') s;
          s2 = form_reset s1
      in s2\<lparr>submitButton :=
             (submitButton s2)\<lparr>button_textContent := originalText, button_disabled := False\<rparr>\<rparr>)"

text \<open>
  \<^verbatim>\<open>handleSubmit\<close> (lines 247-258): the data are the current values of the controls
  (the replacement of unpaired surrogates that \<^verbatim>\<open>FormData\<close> makes is not modelled).
\<close>

definition form_entries :: "form_state \<Rightarrow> form_data" where
  "form_entries s =
     \<lparr>name = control_value (name_control s), email = control_value (email_control s),
      message = control_value (message_control s)\<rparr>"

definition handleSubmit :: "form_state \<Rightarrow> form_state" where
  "handleSubmit s =
     (case validateForm (form_entries s) s of
        (ok, s') \<Rightarrow> if ok then simulateSubmission (form_entries s) s' else s')"

text \<open>
  The rules of the validation, to compare \<^verbatim>\<open>validateForm\<close> with: in the order name,
  email, message, the first rule that fails decides, each with a message of its own.
  An address has the shape \<^verbatim>\<open>local@domain.tld\<close> when it is three non-empty runs of
  characters that are neither white space nor \<^verbatim>\<open>@\<close>, with \<^verbatim>\<open>@\<close> between the first
  two and a dot between the last two. The name and the message rule come in two
  readings: the field is not empty, which is how the specification words the rule, and
  the field is not blank, where a field is blank when nothing but white space is in it.
\<close>

definition plain :: "jschar \<Rightarrow> bool" where
  "plain c \<longleftrightarrow> \<not> js_whitespace c \<and> c \<noteq> 0x40"

definition email_shape :: "jsstring \<Rightarrow> bool" where
  "email_shape s \<longleftrightarrow>
     (\<exists>l d t. s = l @ [0x40] @ d @ [0x2E] @ t \<and> l \<noteq> [] \<and> d \<noteq> [] \<and> t \<noteq> [] \<and>
        list_all plain l \<and> list_all plain d \<and> list_all plain t)"

definition blank :: "jsstring \<Rightarrow> bool" where
  "blank s \<longleftrightarrow> list_all js_whitespace s"

datatype rule = NameRule | EmailRule | MessageRule

fun rule_holds :: "rule \<Rightarrow> form_data \<Rightarrow> bool" where
  "rule_holds NameRule data = (\<not> blank (name data))"
| "rule_holds EmailRule data = email_shape (email data)"
| "rule_holds MessageRule data = (\<not> blank (message data))"

fun rule_message :: "rule \<Rightarrow> jsstring" where
  "rule_message NameRule = ascii ''Please enter your name.''"
| "rule_message EmailRule = ascii ''Please enter a valid email address.''"
| "rule_message MessageRule = ascii ''Please enter your message.''"

definition first_failing_rule :: "form_data \<Rightarrow> rule option" where
  "first_failing_rule data =
     find (\<lambda>r. \<not> rule_holds r data) [NameRule, EmailRule, MessageRule]"

fun rule_holds_nonempty :: "rule \<Rightarrow> form_data \<Rightarrow> bool" where
  "rule_holds_nonempty NameRule data = (name data \<noteq> [])"
| "rule_holds_nonempty EmailRule data = email_shape (email data)"
| "rule_holds_nonempty MessageRule data = (message data \<noteq> [])"

definition first_failing_rule_nonempty :: "form_data \<Rightarrow> rule option" where
  "first_failing_rule_nonempty data =
     find (\<lambda>r. \<not> rule_holds_nonempty r data) [NameRule, EmailRule, MessageRule]"

text \<open>A form to evaluate on: empty controls, a status element, a button.\<close>

definition example_form :: form_state where
  "example_form =
     \<lparr>formStatus = Some \<lparr>status_textContent = [], status_className = ascii ''form-status''\<rparr>,
      submitButton = \<lparr>button_textContent = ascii ''Send Message'', button_disabled = False\<rparr>,
      name_control = \<lparr>control_value = [], control_defaultValue = []\<rparr>,
      email_control = \<lparr>control_value = [], control_defaultValue = []\<rparr>,
      message_control = \<lparr>control_value = [], control_defaultValue = []\<rparr>,
      form_timeouts = []\<rparr>"

text \<open>The same form, filled in.\<close>

definition filled_form :: form_state where
  "filled_form =
     example_form
       \<lparr>name_control := \<lparr>control_value = ascii ''Ada L'', control_defaultValue = []\<rparr>,
        email_control := \<lparr>control_value = ascii ''ada@math.org'', control_defaultValue = []\<rparr>,
        message_control := \<lparr>control_value = ascii ''hello there'', control_defaultValue = []\<rparr>\<rparr>"

section \<open>Properties of the utilities\<close>

lemma rounding_mono: "rounding rnd \<Longrightarrow> x \<le> y \<Longrightarrow> rnd x \<le> rnd y"
  by (simp add: rounding_def)

lemma rounding_half: "rounding rnd \<Longrightarrow> \<bar>n\<bar> \<le> 2 ^ 53 \<Longrightarrow> rnd (of_int n / 2) = of_int n / 2"
  by (simp add: rounding_def)

lemma rounding_exact:
  assumes "rounding rnd"
  shows "rnd 0 = 0" "rnd 1 = 1" "rnd 2 = 2" "rnd (1 / 2) = 1 / 2" "rnd (- (1 / 2)) = - (1 / 2)"
    "rnd (- 1) = - 1" "rnd 100 = 100"
  using rounding_half [OF assms, of 0] rounding_half [OF assms, of 2]
    rounding_half [OF assms, of 4] rounding_half [OF assms, of 1]
    rounding_half [OF assms, of "- 1"] rounding_half [OF assms, of "- 2"]
    rounding_half [OF assms, of 200]
  by simp_all

lemma rounding_exact_fun: "rounding exact"
  by (simp add: rounding_def exact_def)

lemma rounding_round_to_bits: "0 < k \<Longrightarrow> rounding (round_to_bits k)"
  unfolding rounding_def round_to_bits_def
proof (intro conjI allI impI)
  fix x y :: real assume "x \<le> y"
  then have "x * 2 ^ k + 1 / 2 \<le> y * 2 ^ k + 1 / 2" by simp
  then have "\<lfloor>x * 2 ^ k + 1 / 2\<rfloor> \<le> \<lfloor>y * 2 ^ k + 1 / 2\<rfloor>" by (rule floor_mono)
  then show "real_of_int \<lfloor>x * 2 ^ k + 1 / 2\<rfloor> / 2 ^ k \<le> real_of_int \<lfloor>y * 2 ^ k + 1 / 2\<rfloor> / 2 ^ k"
    by (simp add: divide_right_mono)
next
  fix n :: int assume k: "0 < k"
  then obtain j where j: "k = Suc j" by (cases k) auto
  have "real_of_int n / 2 * 2 ^ k + 1 / 2 = of_int (n * 2 ^ j) + 1 / 2"
    by (simp add: j)
  then have "\<lfloor>real_of_int n / 2 * 2 ^ k + 1 / 2\<rfloor> = n * 2 ^ j"
    by (simp only:) linarith
  then show "real_of_int \<lfloor>real_of_int n / 2 * 2 ^ k + 1 / 2\<rfloor> / 2 ^ k = real_of_int n / 2"
    by (simp add: j)
qed

text \<open>Rounding to 53 bits is a rounding.\<close>

lemma ulp53_pos: "0 < ulp53 x"
  by (simp add: ulp53_def)

lemma ulp53_alt: "ulp53 x = 2 powr (of_int \<lfloor>log 2 \<bar>x\<bar>\<rfloor>) / 2 ^ 52"
  by (simp add: ulp53_def powr_diff)

lemma binade:
  assumes "x \<noteq> 0"
  shows "2 powr (of_int \<lfloor>log 2 \<bar>x\<bar>\<rfloor>) \<le> \<bar>x\<bar>"
    and "\<bar>x\<bar> < 2 * 2 powr (of_int \<lfloor>log 2 \<bar>x\<bar>\<rfloor>)"
proof -
  have p: "0 < \<bar>x\<bar>" using assms by simp
  have b: "2 powr real_of_int \<lfloor>log 2 \<bar>x\<bar>\<rfloor> \<le> \<bar>x\<bar> \<and>
      \<bar>x\<bar> < 2 powr real_of_int (\<lfloor>log 2 \<bar>x\<bar>\<rfloor> + 1)"
    using floor_log_eq_powr_iff [OF p, of 2 "\<lfloor>log 2 \<bar>x\<bar>\<rfloor>"] by simp
  then show "2 powr (of_int \<lfloor>log 2 \<bar>x\<bar>\<rfloor>) \<le> \<bar>x\<bar>" by simp
  have "2 powr real_of_int (\<lfloor>log 2 \<bar>x\<bar>\<rfloor> + 1) = 2 * 2 powr (of_int \<lfloor>log 2 \<bar>x\<bar>\<rfloor>)"
    by (simp add: powr_add)
  with b show "\<bar>x\<bar> < 2 * 2 powr (of_int \<lfloor>log 2 \<bar>x\<bar>\<rfloor>)" by simp
qed

lemma scaled:
  assumes "x \<noteq> 0"
  shows "2 ^ 52 \<le> \<bar>x\<bar> / ulp53 x" and "\<bar>x\<bar> / ulp53 x < 2 ^ 53"
proof -
  define b :: real where "b = 2 powr (of_int \<lfloor>log 2 \<bar>x\<bar>\<rfloor>)"
  have b: "0 < b" by (simp add: b_def)
  have u: "ulp53 x = b / 2 ^ 52" by (simp add: ulp53_alt b_def)
  have q: "\<bar>x\<bar> / ulp53 x = \<bar>x\<bar> / b * 2 ^ 52" by (simp add: u)
  have lo: "1 \<le> \<bar>x\<bar> / b" using binade(1) [OF assms] b by (simp add: b_def)
  have hi: "\<bar>x\<bar> / b < 2" using binade(2) [OF assms] b by (simp add: b_def pos_divide_less_eq)
  have "1 * (2::real) ^ 52 \<le> \<bar>x\<bar> / b * 2 ^ 52"
    using lo by (intro mult_right_mono) simp_all
  then show "2 ^ 52 \<le> \<bar>x\<bar> / ulp53 x"
    by (simp add: q)
  have "\<bar>x\<bar> / b * 2 ^ 52 < 2 * (2::real) ^ 52"
    using hi by (intro mult_strict_right_mono) simp_all
  then show "\<bar>x\<bar> / ulp53 x < 2 ^ 53"
    by (simp add: q)
qed

lemma round53_pos:
  assumes "0 < x"
  shows "2 powr (of_int \<lfloor>log 2 \<bar>x\<bar>\<rfloor>) \<le> round53 x"
    and "round53 x \<le> 2 * 2 powr (of_int \<lfloor>log 2 \<bar>x\<bar>\<rfloor>)"
proof -
  have nz: "x \<noteq> 0" using assms by simp
  have ax: "\<bar>x\<bar> = x" using assms by simp
  have s: "2 ^ 52 \<le> x / ulp53 x" "x / ulp53 x < 2 ^ 53"
    using scaled [OF nz] by (simp_all add: ax)
  have f1: "(2::real) ^ 52 \<le> of_int \<lfloor>x / ulp53 x + 1 / 2\<rfloor>"
  proof -
    have "(2 ^ 52 :: int) = \<lfloor>(2 ^ 52 :: real)\<rfloor>" by simp
    also have "\<dots> \<le> \<lfloor>x / ulp53 x + 1 / 2\<rfloor>"
      using s(1) by (intro floor_mono) simp
    finally have "(2 ^ 52 :: int) \<le> \<lfloor>x / ulp53 x + 1 / 2\<rfloor>" .
    then have "real_of_int (2 ^ 52) \<le> of_int \<lfloor>x / ulp53 x + 1 / 2\<rfloor>"
      by (simp only: of_int_le_iff)
    then show ?thesis by simp
  qed
  have f2: "of_int \<lfloor>x / ulp53 x + 1 / 2\<rfloor> \<le> (2::real) ^ 53"
  proof -
    have "x / ulp53 x + 1 / 2 < 2 ^ 53 + 1" using s(2) by simp
    then have "\<lfloor>x / ulp53 x + 1 / 2\<rfloor> < 2 ^ 53 + 1"
      by (simp add: floor_less_iff)
    then have "\<lfloor>x / ulp53 x + 1 / 2\<rfloor> \<le> 2 ^ 53" by simp
    then have "real_of_int \<lfloor>x / ulp53 x + 1 / 2\<rfloor> \<le> of_int (2 ^ 53)"
      by (simp only: of_int_le_iff)
    then show ?thesis by simp
  qed
  have r: "round53 x = of_int \<lfloor>x / ulp53 x + 1 / 2\<rfloor> * ulp53 x"
    using nz by (simp add: round53_def)
  have "2 ^ 52 * ulp53 x \<le> of_int \<lfloor>x / ulp53 x + 1 / 2\<rfloor> * ulp53 x"
    using f1 ulp53_pos [of x] by (intro mult_right_mono) simp_all
  then show "2 powr (of_int \<lfloor>log 2 \<bar>x\<bar>\<rfloor>) \<le> round53 x"
    by (simp add: r ulp53_alt)
  have "of_int \<lfloor>x / ulp53 x + 1 / 2\<rfloor> * ulp53 x \<le> 2 ^ 53 * ulp53 x"
    using f2 ulp53_pos [of x] by (intro mult_right_mono) simp_all
  then show "round53 x \<le> 2 * 2 powr (of_int \<lfloor>log 2 \<bar>x\<bar>\<rfloor>)"
    by (simp add: r ulp53_alt)
qed

lemma round53_neg:
  assumes "x < 0"
  shows "- (2 * 2 powr (of_int \<lfloor>log 2 \<bar>x\<bar>\<rfloor>)) \<le> round53 x"
    and "round53 x \<le> - (2 powr (of_int \<lfloor>log 2 \<bar>x\<bar>\<rfloor>))"
proof -
  have nz: "x \<noteq> 0" using assms by simp
  have ax: "\<bar>x\<bar> = - x" using assms by simp
  have s: "x / ulp53 x \<le> - (2 ^ 52)" "- (2 ^ 53) < x / ulp53 x"
    using scaled [OF nz] by (simp_all add: ax)
  have f1: "of_int \<lfloor>x / ulp53 x + 1 / 2\<rfloor> \<le> - ((2::real) ^ 52)"
  proof -
    have "x / ulp53 x + 1 / 2 < - (2 ^ 52) + 1" using s(1) by simp
    then have "\<lfloor>x / ulp53 x + 1 / 2\<rfloor> < - (2 ^ 52) + 1"
      by (simp add: floor_less_iff)
    then have "\<lfloor>x / ulp53 x + 1 / 2\<rfloor> \<le> - (2 ^ 52)" by simp
    then have "real_of_int \<lfloor>x / ulp53 x + 1 / 2\<rfloor> \<le> of_int (- (2 ^ 52))"
      by (simp only: of_int_le_iff)
    then show ?thesis by simp
  qed
  have f2: "- ((2::real) ^ 53) \<le> of_int \<lfloor>x / ulp53 x + 1 / 2\<rfloor>"
  proof -
    have "(- (2 ^ 53) :: int) = \<lfloor>(- (2 ^ 53) :: real)\<rfloor>" by simp
    also have "\<dots> \<le> \<lfloor>x / ulp53 x + 1 / 2\<rfloor>"
      using s(2) by (intro floor_mono) simp
    finally have "(- (2 ^ 53) :: int) \<le> \<lfloor>x / ulp53 x + 1 / 2\<rfloor>" .
    then have "real_of_int (- (2 ^ 53)) \<le> of_int \<lfloor>x / ulp53 x + 1 / 2\<rfloor>"
      by (simp only: of_int_le_iff)
    then show ?thesis by simp
  qed
  have r: "round53 x = of_int \<lfloor>x / ulp53 x + 1 / 2\<rfloor> * ulp53 x"
    using nz by (simp add: round53_def)
  have "- (2 ^ 53) * ulp53 x \<le> of_int \<lfloor>x / ulp53 x + 1 / 2\<rfloor> * ulp53 x"
    using f2 ulp53_pos [of x] by (intro mult_right_mono) simp_all
  then show "- (2 * 2 powr (of_int \<lfloor>log 2 \<bar>x\<bar>\<rfloor>)) \<le> round53 x"
    by (simp add: r ulp53_alt)
  have "of_int \<lfloor>x / ulp53 x + 1 / 2\<rfloor> * ulp53 x \<le> - (2 ^ 52) * ulp53 x"
    using f1 ulp53_pos [of x] by (intro mult_right_mono) simp_all
  then show "round53 x \<le> - (2 powr (of_int \<lfloor>log 2 \<bar>x\<bar>\<rfloor>))"
    by (simp add: r ulp53_alt)
qed

lemma binade_step:
  fixes a b :: int
  assumes "a < b"
  shows "2 * 2 powr (of_int a) \<le> (2::real) powr (of_int b)"
proof -
  have "a + 1 \<le> b" using assms by simp
  then have "real_of_int (a + 1) \<le> of_int b" by (simp only: of_int_le_iff)
  then have "(2::real) powr (of_int (a + 1)) \<le> 2 powr (of_int b)"
    by (intro powr_mono) simp_all
  then show ?thesis by (simp add: powr_add)
qed

lemma round53_same_binade:
  assumes "x \<noteq> 0" "y \<noteq> 0" "x \<le> y" "\<lfloor>log 2 \<bar>x\<bar>\<rfloor> = \<lfloor>log 2 \<bar>y\<bar>\<rfloor>"
  shows "round53 x \<le> round53 y"
proof -
  have u: "ulp53 x = ulp53 y" using assms(4) by (simp add: ulp53_def)
  have "x / ulp53 y + 1 / 2 \<le> y / ulp53 y + 1 / 2"
    using assms(3) ulp53_pos [of y] by (simp add: divide_right_mono)
  then have "\<lfloor>x / ulp53 y + 1 / 2\<rfloor> \<le> \<lfloor>y / ulp53 y + 1 / 2\<rfloor>"
    by (rule floor_mono)
  then have "real_of_int \<lfloor>x / ulp53 y + 1 / 2\<rfloor> \<le> of_int \<lfloor>y / ulp53 y + 1 / 2\<rfloor>"
    by (simp only: of_int_le_iff)
  then have "of_int \<lfloor>x / ulp53 y + 1 / 2\<rfloor> * ulp53 y \<le> of_int \<lfloor>y / ulp53 y + 1 / 2\<rfloor> * ulp53 y"
    using ulp53_pos [of y] by (intro mult_right_mono) simp_all
  then show ?thesis
    using assms(1,2) by (simp add: round53_def u)
qed

lemma round53_mono:
  assumes "x \<le> y"
  shows "round53 x \<le> round53 y"
proof -
  let ?ex = "\<lfloor>log 2 \<bar>x\<bar>\<rfloor>" and ?ey = "\<lfloor>log 2 \<bar>y\<bar>\<rfloor>"
  have pw: "0 < (2::real) powr r" for r by simp
  consider "x = 0" | "y = 0" "x \<noteq> 0" | "x < 0" "0 < y" | "0 < x" | "y < 0"
    using assms by linarith
  then show ?thesis
  proof cases
    case 1
    show ?thesis
    proof (cases "y = 0")
      case True
      with 1 show ?thesis by simp
    next
      case False
      with 1 assms have y: "0 < y" by simp
      have "0 < round53 y"
        using round53_pos(1) [OF y] pw [of "of_int ?ey"] by linarith
      moreover have "round53 x = 0" by (simp add: 1 round53_def)
      ultimately show ?thesis by linarith
    qed
  next
    case 2
    with assms have x: "x < 0" by simp
    have "round53 x < 0"
      using round53_neg(2) [OF x] pw [of "of_int ?ex"] by linarith
    moreover have "round53 y = 0" by (simp add: 2 round53_def)
    ultimately show ?thesis by linarith
  next
    case 3
    show ?thesis
      using round53_neg(2) [OF 3(1)] round53_pos(1) [OF 3(2)] pw [of "of_int ?ex"] pw [of "of_int ?ey"]
      by linarith
  next
    case 4
    then have y: "0 < y" using assms by simp
    have "log 2 \<bar>x\<bar> \<le> log 2 \<bar>y\<bar>"
      using 4 y assms by simp
    then have le: "?ex \<le> ?ey" by (rule floor_mono)
    show ?thesis
    proof (cases "?ex = ?ey")
      case True
      then show ?thesis
        using round53_same_binade [of x y] 4 y assms by simp
    next
      case False
      with le have "?ex < ?ey" by simp
      then show ?thesis
        using binade_step [of ?ex ?ey] round53_pos(2) [OF 4] round53_pos(1) [OF y] by linarith
    qed
  next
    case 5
    then have x: "x < 0" using assms by simp
    have "log 2 \<bar>y\<bar> \<le> log 2 \<bar>x\<bar>"
      using 5 x assms by simp
    then have le: "?ey \<le> ?ex" by (rule floor_mono)
    show ?thesis
    proof (cases "?ex = ?ey")
      case True
      then show ?thesis
        using round53_same_binade [of x y] 5 x assms by simp
    next
      case False
      with le have "?ey < ?ex" by simp
      then show ?thesis
        using binade_step [of ?ey ?ex] round53_neg(2) [OF x] round53_neg(1) [OF 5] by linarith
    qed
  qed
qed

lemma round53_integral:
  assumes "x \<noteq> 0" "x / ulp53 x = of_int m"
  shows "round53 x = x"
proof -
  have "\<lfloor>x / ulp53 x + 1 / 2\<rfloor> = m"
    by (simp only: assms(2)) linarith
  then have "round53 x = of_int m * ulp53 x"
    using assms(1) by (simp add: round53_def)
  also have "\<dots> = x / ulp53 x * ulp53 x" by (simp only: assms(2))
  also have "\<dots> = x" using ulp53_pos [of x] by simp
  finally show ?thesis .
qed

lemma round53_half:
  fixes n :: int
  assumes "\<bar>n\<bar> \<le> 2 ^ 53"
  shows "round53 (of_int n / 2) = of_int n / 2"
proof (cases "n = 0")
  case True
  then show ?thesis by (simp add: round53_def)
next
  case False
  define x :: real where "x = of_int n / 2"
  define e where "e = \<lfloor>log 2 \<bar>x\<bar>\<rfloor>"
  have nz: "x \<noteq> 0" using False by (simp add: x_def)
  have lo: "1 / 2 \<le> \<bar>x\<bar>"
  proof -
    have "1 \<le> \<bar>n\<bar>" using False by simp
    then have "(1::real) \<le> \<bar>of_int n\<bar>" by (simp only: of_int_abs [symmetric] of_int_1_le_iff)
    then show ?thesis by (simp add: x_def)
  qed
  have hi: "\<bar>x\<bar> \<le> 2 ^ 52"
  proof -
    have "real_of_int \<bar>n\<bar> \<le> of_int (2 ^ 53)" using assms by (simp only: of_int_le_iff)
    then show ?thesis by (simp add: x_def)
  qed
  have b: "2 powr (of_int e) \<le> \<bar>x\<bar>" "\<bar>x\<bar> < 2 * 2 powr (of_int e)"
    using binade [OF nz] by (simp_all add: e_def)
  have e_lo: "- 1 \<le> e"
  proof -
    have "log 2 (1 / 2) \<le> log 2 \<bar>x\<bar>" using lo by simp
    moreover have "log 2 (1 / 2) = - 1" by (simp add: log_divide)
    ultimately have "real_of_int (- 1) \<le> log 2 \<bar>x\<bar>" by simp
    then show ?thesis unfolding e_def by (simp only: le_floor_iff)
  qed
  have e_hi: "e \<le> 52"
  proof -
    have "(2::real) ^ 52 = 2 powr 52" by simp
    then have "(2::real) powr (of_int e) \<le> 2 powr 52" using b(1) hi by linarith
    moreover have "(2::real) powr (of_int e) \<le> 2 powr 52 \<longleftrightarrow> real_of_int e \<le> 52"
      by (rule powr_le_cancel_iff) simp
    ultimately have "real_of_int e \<le> 52" by blast
    then show ?thesis by linarith
  qed
  define k where "k = nat (e + 1)"
  have k: "k \<le> 53" "e = int k - 1" using e_lo e_hi by (simp_all add: k_def)
  have pw: "2 powr (of_int e) = 2 ^ k / (2::real)"
  proof -
    have "(2::real) powr (of_int e) = 2 powr (real k - 1)" by (simp add: k(2))
    also have "\<dots> = 2 powr (real k) / 2" by (simp add: powr_diff)
    also have "\<dots> = 2 ^ k / 2" by (simp add: powr_realpow)
    finally show ?thesis .
  qed
  have u: "ulp53 x = 2 ^ k / 2 ^ 53"
    by (simp add: ulp53_alt e_def [symmetric] pw)
  have q: "x / ulp53 x = of_int n * 2 ^ 52 / 2 ^ k"
  proof -
    have "x / ulp53 x = x * 2 ^ 53 / 2 ^ k" by (simp only: u) simp
    also have "\<dots> = of_int n * 2 ^ 52 / 2 ^ k" by (simp add: x_def)
    finally show ?thesis .
  qed
  have "\<exists>m::int. x / ulp53 x = of_int m"
  proof (cases "k \<le> 52")
    case True
    then have p52: "(2::real) ^ 52 = 2 ^ (52 - k) * 2 ^ k"
      by (simp add: power_add [symmetric])
    have "x / ulp53 x = of_int n * (2 ^ (52 - k) * 2 ^ k) / 2 ^ k"
      by (simp only: q p52 [symmetric])
    also have "\<dots> = of_int n * 2 ^ (52 - k)"
      by (simp del: power_numeral)
    also have "\<dots> = of_int (n * 2 ^ (52 - k))" by simp
    finally show ?thesis by blast
  next
    case False
    with k have k53: "k = 53" by simp
    have "2 ^ 52 \<le> \<bar>x\<bar>" using b(1) by (simp add: pw k53)
    with hi have "\<bar>x\<bar> = 2 ^ 52" by simp
    then have "x = 2 ^ 52 \<or> x = - (2 ^ 52)" by (simp add: abs_if split: if_splits)
    then have "x / ulp53 x = of_int (2 ^ 52) \<or> x / ulp53 x = of_int (- (2 ^ 52))"
      by (auto simp: u k53)
    then show ?thesis by blast
  qed
  then obtain m :: int where "x / ulp53 x = of_int m" by blast
  then have "round53 x = x" using nz by (intro round53_integral)
  then show ?thesis by (simp add: x_def)
qed

lemma rounding_round53: "rounding round53"
  by (simp add: rounding_def round53_mono round53_half)

lemma easeIn_range:
  assumes r: "rounding rnd" and t: "0 \<le> t" "t < 1 / 2"
  shows "0 \<le> easeIn_branch rnd t \<and> easeIn_branch rnd t \<le> 1 / 2"
proof -
  have a1: "0 \<le> rnd (4 * t) \<and> rnd (4 * t) \<le> 2"
    using rounding_mono [OF r, of 0 "4 * t"] rounding_mono [OF r, of "4 * t" 2] t
    by (simp add: rounding_exact [OF r])
  have m1: "0 \<le> rnd (4 * t) * t \<and> rnd (4 * t) * t \<le> 1"
  proof
    show "0 \<le> rnd (4 * t) * t" using a1 t by simp
    have "rnd (4 * t) * t \<le> 2 * (1 / 2)"
      using a1 t by (intro mult_mono) auto
    then show "rnd (4 * t) * t \<le> 1" by simp
  qed
  have a2: "0 \<le> rnd (rnd (4 * t) * t) \<and> rnd (rnd (4 * t) * t) \<le> 1"
    using rounding_mono [OF r, of 0 "rnd (4 * t) * t"] rounding_mono [OF r, of "rnd (4 * t) * t" 1] m1
    by (simp add: rounding_exact [OF r])
  have m2: "0 \<le> rnd (rnd (4 * t) * t) * t \<and> rnd (rnd (4 * t) * t) * t \<le> 1 / 2"
  proof
    show "0 \<le> rnd (rnd (4 * t) * t) * t" using a2 t by simp
    have "rnd (rnd (4 * t) * t) * t \<le> 1 * (1 / 2)"
      using a2 t by (intro mult_mono) auto
    then show "rnd (rnd (4 * t) * t) * t \<le> 1 / 2" by simp
  qed
  show ?thesis
    unfolding easeIn_branch_def
    using rounding_mono [OF r, of 0 "rnd (rnd (4 * t) * t) * t"]
      rounding_mono [OF r, of "rnd (rnd (4 * t) * t) * t" "1 / 2"] m2
    by (simp add: rounding_exact [OF r])
qed

lemma rounding_between:
  assumes "rounding rnd" "lo \<le> x" "x \<le> hi" "rnd lo = lo" "rnd hi = hi"
  shows "lo \<le> rnd x \<and> rnd x \<le> hi"
  using rounding_mono [OF assms(1) assms(2)] rounding_mono [OF assms(1) assms(3)] assms(4,5)
  by simp

lemma mult_range_neg_neg:
  fixes a b :: real
  assumes "- p \<le> a" "a \<le> 0" "- q \<le> b" "b \<le> 0"
  shows "0 \<le> a * b \<and> a * b \<le> p * q"
proof
  show "0 \<le> a * b" using assms by (simp add: mult_nonpos_nonpos)
  have "(- a) * (- b) \<le> p * q"
    using assms by (intro mult_mono) auto
  then show "a * b \<le> p * q" by simp
qed

lemma mult_range_pos_neg:
  fixes a b :: real
  assumes "0 \<le> a" "a \<le> p" "- q \<le> b" "b \<le> 0"
  shows "- (p * q) \<le> a * b \<and> a * b \<le> 0"
proof
  show "a * b \<le> 0" using assms by (simp add: mult_nonneg_nonpos)
  have "a * (- b) \<le> p * q"
    using assms by (intro mult_mono) auto
  then show "- (p * q) \<le> a * b" by simp
qed

lemma easeOut_range:
  assumes r: "rounding rnd" and t: "1 / 2 \<le> t" "t \<le> 1"
  shows "1 / 2 \<le> easeOut_branch rnd t \<and> easeOut_branch rnd t \<le> 1"
proof -
  note ex = rounding_exact [OF r]
  have b1: "- (1 / 2) \<le> rnd (t - 1) \<and> rnd (t - 1) \<le> 0"
    using t by (intro rounding_between [OF r]) (simp_all add: ex)
  have c1: "1 \<le> rnd (2 * t) \<and> rnd (2 * t) \<le> 2"
    using t by (intro rounding_between [OF r]) (simp_all add: ex)
  have c2: "- 1 \<le> rnd (rnd (2 * t) - 2) \<and> rnd (rnd (2 * t) - 2) \<le> 0"
    using c1 by (intro rounding_between [OF r]) (simp_all add: ex)
  have m1: "0 \<le> rnd (t - 1) * rnd (rnd (2 * t) - 2) \<and>
      rnd (t - 1) * rnd (rnd (2 * t) - 2) \<le> 1 / 2"
    using mult_range_neg_neg [of "1 / 2" "rnd (t - 1)" 1 "rnd (rnd (2 * t) - 2)"] b1 c2
    by simp
  have p1: "0 \<le> rnd (rnd (t - 1) * rnd (rnd (2 * t) - 2)) \<and>
      rnd (rnd (t - 1) * rnd (rnd (2 * t) - 2)) \<le> 1 / 2"
    using m1 by (intro rounding_between [OF r]) (simp_all add: ex)
  have m2: "- (1 / 2) \<le> rnd (rnd (t - 1) * rnd (rnd (2 * t) - 2)) * rnd (rnd (2 * t) - 2) \<and>
      rnd (rnd (t - 1) * rnd (rnd (2 * t) - 2)) * rnd (rnd (2 * t) - 2) \<le> 0"
    using mult_range_pos_neg [of "rnd (rnd (t - 1) * rnd (rnd (2 * t) - 2))" "1 / 2" 1
        "rnd (rnd (2 * t) - 2)"] p1 c2
    by simp
  have p2: "- (1 / 2) \<le> rnd (rnd (rnd (t - 1) * rnd (rnd (2 * t) - 2)) * rnd (rnd (2 * t) - 2)) \<and>
      rnd (rnd (rnd (t - 1) * rnd (rnd (2 * t) - 2)) * rnd (rnd (2 * t) - 2)) \<le> 0"
    using m2 by (intro rounding_between [OF r]) (simp_all add: ex)
  show ?thesis
    unfolding easeOut_branch_def
    using p2 by (intro rounding_between [OF r]) (simp_all add: ex)
qed

lemma ease_points:
  assumes r: "rounding rnd"
  shows "easeInOutCubic rnd 0 = 0" "easeInOutCubic rnd 1 = 1"
    "easeIn_branch rnd (1 / 2) = 1 / 2" "easeOut_branch rnd (1 / 2) = 1 / 2"
  by (simp_all add: easeInOutCubic_def easeIn_branch_def easeOut_branch_def rounding_exact [OF r])

lemma ease_cont: "isCont (easeInOutCubic exact) (1 / 2)"
proof -
  have eq: "easeInOutCubic exact = (\<lambda>t. if t \<le> 1 / 2 then 4 * t * t * t else (t - 1) * (2 * t - 2) * (2 * t - 2) + 1)"
  proof (rule ext)
    fix t :: real
    show "easeInOutCubic exact t =
        (if t \<le> 1 / 2 then 4 * t * t * t else (t - 1) * (2 * t - 2) * (2 * t - 2) + 1)"
    proof (cases "t = 1 / 2")
      case True
      have "easeInOutCubic exact (1 / 2) = 4 * (1 / 2) * (1 / 2) * (1 / 2)"
        by (simp add: easeInOutCubic_def easeOut_branch_def exact_def)
      then show ?thesis by (simp only: True) simp
    next
      case False
      then show ?thesis
        by (auto simp: easeInOutCubic_def easeIn_branch_def easeOut_branch_def exact_def)
    qed
  qed
  show ?thesis
    unfolding eq
    by (rule isCont_If_ge) (auto intro!: continuous_intros tendsto_eq_intros)
qed

text \<open>
  C9. Under every rounding, \<^verbatim>\<open>easeInOutCubic\<close> is 0 at 0 and 1 at 1, both of its arms
  give 0.5 at 0.5, and on an argument between 0 and 1 its value is between 0 and 1;
  computed exactly, the function is continuous at 0.5.
\<close>

theorem easeInOutCubic_unit_interval:
  "rounding rnd \<Longrightarrow>
     easeInOutCubic rnd 0 = 0 \<and> easeInOutCubic rnd 1 = 1 \<and>
     easeIn_branch rnd (1 / 2) = 1 / 2 \<and> easeOut_branch rnd (1 / 2) = 1 / 2 \<and>
     isCont (easeInOutCubic exact) (1 / 2) \<and>
     (0 \<le> t \<and> t \<le> 1 \<longrightarrow> 0 \<le> easeInOutCubic rnd t \<and> easeInOutCubic rnd t \<le> 1)"
proof -
  assume r: "rounding rnd"
  have range: "0 \<le> easeInOutCubic rnd t \<and> easeInOutCubic rnd t \<le> 1" if "0 \<le> t" "t \<le> 1"
  proof (cases "t < 1 / 2")
    case True
    then show ?thesis
      using easeIn_range [OF r that(1) True] by (simp add: easeInOutCubic_def)
  next
    case False
    then show ?thesis
      using easeOut_range [OF r _ that(2), of ] by (simp add: easeInOutCubic_def)
  qed
  show ?thesis
    using ease_points [OF r] ease_cont range by simp
qed

theorem easeInOutCubic_unit_interval_witness:
  "rounding (round_to_bits 10) \<and> (0::real) \<le> 3 / 10 \<and> (3::real) / 10 \<le> 1 \<and>
   easeInOutCubic (round_to_bits 10) (3 / 10) = 111 / 1024 \<and>
   0 \<le> easeInOutCubic (round_to_bits 10) (3 / 10) \<and>
   easeInOutCubic (round_to_bits 10) (3 / 10) \<le> 1 \<and>
   easeInOutCubic (round_to_bits 10) 1 = 1 \<and>
   rounding round53 \<and>
   0 \<le> easeInOutCubic round53 (3 / 10) \<and> easeInOutCubic round53 (3 / 10) \<le> 1 \<and>
   easeInOutCubic round53 0 = 0 \<and> easeInOutCubic round53 1 = 1"
proof -
  have r: "rounding (round_to_bits 10)"
    by (rule rounding_round_to_bits) simp
  have v: "easeInOutCubic (round_to_bits 10) (3 / 10) = 111 / 1024"
    by (simp add: easeInOutCubic_def easeIn_branch_def round_to_bits_def)
  show ?thesis
    using easeInOutCubic_unit_interval [OF r, of "3 / 10"] r v
      easeInOutCubic_unit_interval [OF rounding_round53, of "3 / 10"] rounding_round53
    by simp
qed

text \<open>
  On a page that scrolls (the document is higher than the window), for a scroll offset
  between 0 and the track length, \<^verbatim>\<open>getScrollProgress\<close> is the rounded quotient, which
  lies between 0 and 1, is 0 at offset 0 and 1 at the end of the track.
\<close>

lemma getScrollProgress_scrollable:
  assumes r: "rounding rnd"
    and m: "innerHeight w < scrollHeight w"
    and s: "0 \<le> js_or (pageYOffset w) (documentElement_scrollTop w)"
      "js_or (pageYOffset w) (documentElement_scrollTop w) \<le> of_int (scrollHeight w - innerHeight w)"
  shows "getScrollProgress rnd w =
      Finite (rnd (js_or (pageYOffset w) (documentElement_scrollTop w) /
                   of_int (scrollHeight w - innerHeight w)))"
    and "0 \<le> rnd (js_or (pageYOffset w) (documentElement_scrollTop w) /
                   of_int (scrollHeight w - innerHeight w))"
    and "rnd (js_or (pageYOffset w) (documentElement_scrollTop w) /
                   of_int (scrollHeight w - innerHeight w)) \<le> 1"
    and "js_or (pageYOffset w) (documentElement_scrollTop w) = 0 \<Longrightarrow>
      getScrollProgress rnd w = Finite 0"
    and "js_or (pageYOffset w) (documentElement_scrollTop w) = of_int (scrollHeight w - innerHeight w) \<Longrightarrow>
      getScrollProgress rnd w = Finite 1"
proof -
  define top where "top = js_or (pageYOffset w) (documentElement_scrollTop w)"
  define track :: real where "track = of_int (scrollHeight w - innerHeight w)"
  have pos: "0 < track" using m by (simp add: track_def)
  have t: "0 \<le> top" "top \<le> track"
    using s by (simp_all add: top_def track_def)
  have q: "0 \<le> top / track" "top / track \<le> 1"
    using t pos by simp_all
  have b: "0 \<le> rnd (top / track) \<and> rnd (top / track) \<le> 1"
    using q by (intro rounding_between [OF r]) (simp_all add: rounding_exact [OF r])
  have g: "getScrollProgress rnd w = Finite (min (rnd (top / track)) 1)"
    using pos by (simp add: getScrollProgress_def js_divide_def Let_def top_def track_def)
  show "getScrollProgress rnd w =
      Finite (rnd (js_or (pageYOffset w) (documentElement_scrollTop w) /
                   of_int (scrollHeight w - innerHeight w)))"
    using g b by (simp add: top_def track_def min_def)
  show "0 \<le> rnd (js_or (pageYOffset w) (documentElement_scrollTop w) /
                   of_int (scrollHeight w - innerHeight w))"
    using b by (simp add: top_def track_def)
  show "rnd (js_or (pageYOffset w) (documentElement_scrollTop w) /
                   of_int (scrollHeight w - innerHeight w)) \<le> 1"
    using b by (simp add: top_def track_def)
  show "getScrollProgress rnd w = Finite 0"
    if "js_or (pageYOffset w) (documentElement_scrollTop w) = 0"
    using g that by (simp add: top_def rounding_exact [OF r])
  show "getScrollProgress rnd w = Finite 1"
    if "js_or (pageYOffset w) (documentElement_scrollTop w) = of_int (scrollHeight w - innerHeight w)"
    using g that pos by (simp add: top_def track_def rounding_exact [OF r])
qed

text \<open>
  C1. On a page that does not scroll (the document is as high as the window) the track
  length is 0 and the scroll offset is 0, which is an offset between 0 and the track
  length: \<^verbatim>\<open>getScrollProgress\<close> divides 0 by 0 and returns NaN, not a number between
  0 and 1, and \<^verbatim>\<open>progressBar.update\<close> writes NaN as the percentage.
\<close>

theorem getScrollProgress_unscrollable:
  "getScrollProgress rnd
     \<lparr>innerHeight = 800, scrollHeight = 800, pageYOffset = 0, documentElement_scrollTop = 0\<rparr> = NaN \<and>
   progressBar_update rnd
     \<lparr>innerHeight = 800, scrollHeight = 800, pageYOffset = 0, documentElement_scrollTop = 0\<rparr> = NaN"
  by (simp add: getScrollProgress_def progressBar_update_def js_divide_def js_or_def)

lemma getScrollProgress_example:
  "getScrollProgress exact
     \<lparr>innerHeight = 800, scrollHeight = 2400, pageYOffset = 400, documentElement_scrollTop = 400\<rparr>
     = Finite (1 / 4) \<and>
   progressBar_update exact
     \<lparr>innerHeight = 800, scrollHeight = 2400, pageYOffset = 400, documentElement_scrollTop = 400\<rparr>
     = Finite 25"
  by (simp add: getScrollProgress_def progressBar_update_def js_divide_def js_or_def exact_def)

section \<open>Properties of the navigation\<close>

lemma classList_remove_absent: "tok \<notin> set cs \<Longrightarrow> classList_remove tok cs = cs"
  by (simp add: classList_remove_def)

lemma classList_remove_add: "tok \<notin> set cs \<Longrightarrow> classList_remove tok (classList_add tok cs) = cs"
  by (simp add: classList_remove_def classList_add_def)

lemma classList_remove_twice:
  "classList_remove tok (classList_remove tok cs) = classList_remove tok cs"
  by (simp add: classList_remove_def)

lemma classList_remove_not_member: "tok \<notin> set (classList_remove tok cs)"
  by (simp add: classList_remove_def)

text \<open>
  C8. Closing a menu that is already closed changes nothing, and closing twice is
  the same as closing once, on every state.
\<close>

theorem closeMobileNav_idempotent:
  "(menu_closed s \<longrightarrow> closeMobileNav s = s) \<and>
   closeMobileNav (closeMobileNav s) = closeMobileNav s"
  by (simp add: closeMobileNav_def menu_closed_def classList_remove_absent
      classList_remove_twice)

theorem closeMobileNav_idempotent_witness:
  "menu_closed (example_nav 375) \<and> closeMobileNav (example_nav 375) = example_nav 375 \<and>
   closeMobileNav (closeMobileNav (mobileToggle_click (example_nav 375))) =
     closeMobileNav (mobileToggle_click (example_nav 375))"
  using closeMobileNav_idempotent [of "example_nav 375"]
    closeMobileNav_idempotent [of "mobileToggle_click (example_nav 375)"]
  by (simp add: menu_closed_def example_nav_def initial_nav_def ascii_def)

lemma closeMobileNav_fixed: "closeMobileNav s = s \<longleftrightarrow> menu_closed s"
proof
  assume e: "closeMobileNav s = s"
  have "isNavOpen (closeMobileNav s) = False"
    "ascii ''active'' \<notin> set (mobileToggle_classList (closeMobileNav s))"
    "ascii ''active'' \<notin> set (navLinks_classList (closeMobileNav s))"
    "body_style_overflow (closeMobileNav s) = []"
    by (simp_all add: closeMobileNav_def classList_remove_not_member)
  then show "menu_closed s"
    by (simp only: e) (simp add: menu_closed_def)
next
  assume "menu_closed s"
  then show "closeMobileNav s = s"
    by (simp add: closeMobileNav_def menu_closed_def classList_remove_absent)
qed

lemma classList_remove_add_any:
  "classList_remove tok (classList_add tok cs) = classList_remove tok cs"
  by (simp add: classList_remove_def classList_add_def)

text \<open>
  C6. From a state with the flag false, the toggle click that opens the menu followed
  by any of the closes (\<^verbatim>\<open>closeMobileNav\<close> itself, a second toggle click, the escape
  key, a click outside the navbar, a nav-link click on a window at most 768 wide) gives
  the state that \<^verbatim>\<open>closeMobileNav\<close> gives from the state before the open: the flag
  false, no \<^verbatim>\<open>active\<close> on either element, the body's overflow unset, the rest as it
  was. That is the state before the open exactly when neither element carried
  \<^verbatim>\<open>active\<close> and the body's overflow was unset there.
\<close>

theorem menu_round_trip:
  "\<not> isNavOpen s \<Longrightarrow>
     closeMobileNav (mobileToggle_click s) = closeMobileNav s \<and>
     mobileToggle_click (mobileToggle_click s) = closeMobileNav s \<and>
     document_keydown (ascii ''Escape'') (mobileToggle_click s) = closeMobileNav s \<and>
     document_click False (mobileToggle_click s) = closeMobileNav s \<and>
     (innerWidth s \<le> 768 \<longrightarrow> navLink_click (mobileToggle_click s) = closeMobileNav s) \<and>
     dispatch (Click ToggleButton True) (dispatch (Click ToggleButton True) s) = closeMobileNav s \<and>
     (closeMobileNav s = s) = menu_closed s"
proof -
  assume c: "\<not> isNavOpen s"
  have op: "isNavOpen (mobileToggle_click s)"
    using c by (simp add: mobileToggle_click_def Let_def)
  have cl: "closeMobileNav (mobileToggle_click s) = closeMobileNav s"
    using c
    by (simp add: mobileToggle_click_def closeMobileNav_def classList_toggle_def
        classList_remove_add_any Let_def)
  have tw: "mobileToggle_click (mobileToggle_click s) = closeMobileNav s"
    using c
    by (simp add: mobileToggle_click_def closeMobileNav_def classList_toggle_def
        classList_remove_add_any Let_def)
  have w: "innerWidth (mobileToggle_click s) = innerWidth s"
    by (simp add: mobileToggle_click_def Let_def)
  show ?thesis
    using op cl tw w closeMobileNav_fixed [of s]
    by (simp add: document_keydown_def document_click_def navLink_click_def)
qed

theorem menu_round_trip_witness:
  "\<not> isNavOpen (example_nav 375) \<and> menu_closed (example_nav 375) \<and>
   isNavOpen (mobileToggle_click (example_nav 375)) \<and>
   body_style_overflow (mobileToggle_click (example_nav 375)) = ascii ''hidden'' \<and>
   closeMobileNav (mobileToggle_click (example_nav 375)) = example_nav 375 \<and>
   innerWidth (example_nav 375) \<le> 768 \<and>
   navLink_click (mobileToggle_click (example_nav 375)) = example_nav 375 \<and>
   \<not> isNavOpen
     (initial_nav [ascii ''mobile-toggle''] [ascii ''nav-links''] (ascii ''scroll'') example_links 375) \<and>
   closeMobileNav (mobileToggle_click
     (initial_nav [ascii ''mobile-toggle''] [ascii ''nav-links''] (ascii ''scroll'') example_links 375)) =
     example_nav 375"
proof -
  have a: "\<not> isNavOpen (example_nav 375)" "menu_closed (example_nav 375)"
    "innerWidth (example_nav 375) \<le> 768"
    by (simp_all add: example_nav_def initial_nav_def menu_closed_def ascii_def)
  have b: "isNavOpen (mobileToggle_click (example_nav 375))"
    "body_style_overflow (mobileToggle_click (example_nav 375)) = ascii ''hidden''"
    by (simp_all add: example_nav_def initial_nav_def mobileToggle_click_def)
  have c: "\<not> isNavOpen
     (initial_nav [ascii ''mobile-toggle''] [ascii ''nav-links''] (ascii ''scroll'') example_links 375)"
    by (simp add: initial_nav_def)
  have d: "closeMobileNav
     (initial_nav [ascii ''mobile-toggle''] [ascii ''nav-links''] (ascii ''scroll'') example_links 375) =
     example_nav 375"
    by (simp add: closeMobileNav_def example_nav_def initial_nav_def classList_remove_def ascii_def)
  note m = menu_round_trip [OF a(1)]
  have e: "closeMobileNav (example_nav 375) = example_nav 375"
    using m a(2) by blast
  have r: "closeMobileNav (mobileToggle_click (example_nav 375)) = example_nav 375"
    using m [THEN conjunct1] by (simp only: e)
  have l: "navLink_click (mobileToggle_click (example_nav 375)) = example_nav 375"
    using m [THEN conjunct2, THEN conjunct2, THEN conjunct2, THEN conjunct2, THEN conjunct1] a(3)
    by (simp only: e)
  have q: "closeMobileNav (mobileToggle_click
     (initial_nav [ascii ''mobile-toggle''] [ascii ''nav-links''] (ascii ''scroll'') example_links 375)) =
     example_nav 375"
    using menu_round_trip [OF c, THEN conjunct1] by (simp only: d)
  show ?thesis
    using a b c r l q by blast
qed

text \<open>
  The round trip does not give back every state with the flag false: on a page that
  sets the body's inline overflow to \<^verbatim>\<open>scroll\<close>, the open followed by a close (by
  \<^verbatim>\<open>closeMobileNav\<close> or by a second toggle click) leaves the overflow unset.
\<close>

theorem menu_round_trip_overflow_counterexample:
  "\<not> isNavOpen
     (initial_nav [ascii ''mobile-toggle''] [ascii ''nav-links''] (ascii ''scroll'') example_links 375) \<and>
   body_style_overflow
     (initial_nav [ascii ''mobile-toggle''] [ascii ''nav-links''] (ascii ''scroll'') example_links 375) =
     ascii ''scroll'' \<and>
   body_style_overflow
     (closeMobileNav (mobileToggle_click
        (initial_nav [ascii ''mobile-toggle''] [ascii ''nav-links''] (ascii ''scroll'') example_links 375))) = [] \<and>
   body_style_overflow
     (mobileToggle_click (mobileToggle_click
        (initial_nav [ascii ''mobile-toggle''] [ascii ''nav-links''] (ascii ''scroll'') example_links 375))) = [] \<and>
   closeMobileNav (mobileToggle_click
     (initial_nav [ascii ''mobile-toggle''] [ascii ''nav-links''] (ascii ''scroll'') example_links 375)) \<noteq>
     initial_nav [ascii ''mobile-toggle''] [ascii ''nav-links''] (ascii ''scroll'') example_links 375"
proof -
  have o: "body_style_overflow
     (closeMobileNav (mobileToggle_click
        (initial_nav [ascii ''mobile-toggle''] [ascii ''nav-links''] (ascii ''scroll'') example_links 375))) = []"
    by (simp add: closeMobileNav_def)
  have s: "body_style_overflow
     (initial_nav [ascii ''mobile-toggle''] [ascii ''nav-links''] (ascii ''scroll'') example_links 375) =
     ascii ''scroll''"
    by (simp add: initial_nav_def)
  have n: "ascii ''scroll'' \<noteq> []" by (simp add: ascii_def)
  have ne: "closeMobileNav (mobileToggle_click
     (initial_nav [ascii ''mobile-toggle''] [ascii ''nav-links''] (ascii ''scroll'') example_links 375)) \<noteq>
     initial_nav [ascii ''mobile-toggle''] [ascii ''nav-links''] (ascii ''scroll'') example_links 375"
  proof
    assume "closeMobileNav (mobileToggle_click
     (initial_nav [ascii ''mobile-toggle''] [ascii ''nav-links''] (ascii ''scroll'') example_links 375)) =
     initial_nav [ascii ''mobile-toggle''] [ascii ''nav-links''] (ascii ''scroll'') example_links 375"
    then have "body_style_overflow
     (closeMobileNav (mobileToggle_click
        (initial_nav [ascii ''mobile-toggle''] [ascii ''nav-links''] (ascii ''scroll'') example_links 375))) =
      body_style_overflow
     (initial_nav [ascii ''mobile-toggle''] [ascii ''nav-links''] (ascii ''scroll'') example_links 375)"
      by (rule arg_cong)
    with o s n show False by simp
  qed
  have t: "body_style_overflow
     (mobileToggle_click (mobileToggle_click
        (initial_nav [ascii ''mobile-toggle''] [ascii ''nav-links''] (ascii ''scroll'') example_links 375))) = []"
    by (simp add: mobileToggle_click_def initial_nav_def Let_def)
  show ?thesis
    using o s ne t by (simp add: initial_nav_def)
qed

text \<open>
  C7. With the menu open, a click outside the navbar and an escape keydown close it,
  and a nav-link click closes it when the window is at most 768 wide (the guard of
  line 169): the flag is false and both \<^verbatim>\<open>active\<close> classes are gone afterwards. With
  the menu closed, the toggle click opens it and no other event does; the scroll spy
  never touches the flag.
\<close>

theorem close_and_open_triggers:
  "(isNavOpen s \<longrightarrow>
      (innerWidth s \<le> 768 \<longrightarrow> menu_closed (navLink_click s)) \<and>
      menu_closed (document_click False s) \<and>
      menu_closed (document_keydown (ascii ''Escape'') s) \<and>
      menu_closed (dispatch (Click tgt False) s)) \<and>
   (\<not> isNavOpen s \<longrightarrow>
      isNavOpen (mobileToggle_click s) \<and>
      isNavOpen (dispatch (Click ToggleButton True) s) \<and>
      (isNavOpen (dispatch e s) \<longrightarrow> (\<exists>b. e = Click ToggleButton b))) \<and>
   isNavOpen (snd (activeState_callback es s)) = isNavOpen s"
proof -
  have closes: "menu_closed (closeMobileNav t)" for t
    by (simp add: menu_closed_def closeMobileNav_def classList_remove_not_member)
  have spy1: "isNavOpen (snd (setActiveLink i t)) = isNavOpen t" for i t
    by (simp add: setActiveLink_def)
  have spy: "isNavOpen (snd (activeState_callback es t)) = isNavOpen t" for t
  proof (induction es arbitrary: t)
    case Nil
    show ?case by simp
  next
    case (Cons a as)
    show ?case
      using Cons.IH [of "snd (setActiveLink (target_id a) t)"] Cons.IH [of t] spy1 [of "target_id a" t]
      by (simp split: prod.splits) (metis snd_conv)
  qed
  have opened: "\<not> isNavOpen s \<Longrightarrow> isNavOpen (mobileToggle_click s)"
    by (simp add: mobileToggle_click_def Let_def)
  have toggle_closes: "isNavOpen t \<Longrightarrow> menu_closed (mobileToggle_click t)" for t
    by (simp add: menu_closed_def mobileToggle_click_def Let_def classList_toggle_def
        classList_remove_not_member)
  have outside: "isNavOpen s \<Longrightarrow> menu_closed (dispatch (Click tgt False) s)"
  proof (cases tgt)
    case ToggleButton
    assume "isNavOpen s"
    then show ?thesis
      using ToggleButton toggle_closes [of s]
      by (simp add: document_click_def menu_closed_def)
  next
    case NavLink
    assume "isNavOpen s"
    then show ?thesis
      using NavLink closes
      by (simp add: document_click_def navLink_click_def)
  next
    case Elsewhere
    assume "isNavOpen s"
    then show ?thesis
      using Elsewhere closes by (simp add: document_click_def)
  qed
  have only: "\<exists>b. e = Click ToggleButton b"
    if "\<not> isNavOpen s" and "isNavOpen (dispatch e s)"
  proof (cases e)
    case (Click t b)
    then show ?thesis
      using that
      by (cases t)
        (auto simp: document_click_def navLink_click_def closeMobileNav_def
          split: if_splits)
  next
    case (Keydown k)
    then show ?thesis
      using that by (auto simp: document_keydown_def closeMobileNav_def split: if_splits)
  qed
  show ?thesis
    using closes opened outside only spy
    by (auto simp: navLink_click_def document_click_def document_keydown_def)
qed

theorem close_and_open_triggers_witness:
  "isNavOpen (mobileToggle_click (example_nav 375)) \<and>
   innerWidth (mobileToggle_click (example_nav 375)) \<le> 768 \<and>
   menu_closed (navLink_click (mobileToggle_click (example_nav 375))) \<and>
   menu_closed (document_click False (mobileToggle_click (example_nav 375))) \<and>
   menu_closed (document_keydown (ascii ''Escape'') (mobileToggle_click (example_nav 375))) \<and>
   \<not> isNavOpen (example_nav 375) \<and>
   isNavOpen (dispatch (Click ToggleButton True) (example_nav 375))"
  using close_and_open_triggers
    [of "mobileToggle_click (example_nav 375)" Elsewhere "Click ToggleButton True" "[]"]
    close_and_open_triggers [of "example_nav 375" Elsewhere "Click ToggleButton True" "[]"]
  by (simp add: example_nav_def initial_nav_def mobileToggle_click_def)

text \<open>
  The width guard matters: the menu opened on a window 1024 wide stays open, with its
  \<^verbatim>\<open>active\<close> class, after a click on a nav link inside the navbar.
\<close>

theorem navLink_click_wide_counterexample:
  "isNavOpen (mobileToggle_click (example_nav 1024)) \<and>
   isNavOpen (navLink_click (mobileToggle_click (example_nav 1024))) \<and>
   isNavOpen (dispatch (Click NavLink True) (mobileToggle_click (example_nav 1024))) \<and>
   ascii ''active'' \<in>
     set (navLinks_classList (navLink_click (mobileToggle_click (example_nav 1024))))"
  by (simp add: example_nav_def initial_nav_def mobileToggle_click_def navLink_click_def
      document_click_def classList_toggle_def classList_add_def ascii_def)

lemma classList_toggle_member:
  "tok \<in> set (classList_toggle tok force cs) \<longleftrightarrow> force"
  by (simp add: classList_toggle_def classList_add_def classList_remove_def)

text \<open>
  C5. The second of two calls of \<^verbatim>\<open>setActiveLink\<close> with the same section id makes no
  \<^verbatim>\<open>classList\<close> call and returns the state as it got it. The first call makes one
  \<^verbatim>\<open>toggle\<close> call on every nav link, after which exactly the links of that section
  carry \<^verbatim>\<open>active\<close>, when \<^verbatim>\<open>currentSection\<close> was a different id before; when it
  was that id already, the first call makes none either.
\<close>

theorem setActiveLink_twice:
  "setActiveLink sid (snd (setActiveLink sid s)) = ([], snd (setActiveLink sid s)) \<and>
   (currentSection s \<noteq> sid \<longrightarrow>
      map fst (fst (setActiveLink sid s) @
               fst (setActiveLink sid (snd (setActiveLink sid s)))) =
        [0..<length (navLinkItems s)] \<and>
      list_all (\<lambda>link. (ascii ''active'' \<in> set (link_classList link)) =
                         (data_section link = Some sid))
        (navLinkItems (snd (setActiveLink sid s)))) \<and>
   (currentSection s = sid \<longrightarrow> setActiveLink sid s = ([], s))"
proof -
  have fsts: "map (fst \<circ> (\<lambda>(i, link). (i, f link))) (enumerate 0 xs) = [0..<length xs]"
    for f :: "nav_link \<Rightarrow> bool" and xs
  proof -
    have "map (fst \<circ> (\<lambda>(i, link). (i, f link))) (enumerate 0 xs) = map fst (enumerate 0 xs)"
      by (rule map_cong) auto
    then show ?thesis by simp
  qed
  show ?thesis
    by (simp add: setActiveLink_def fsts list_all_iff classList_toggle_member)
qed

theorem setActiveLink_twice_witness:
  "currentSection (example_nav 1024) \<noteq> ascii ''about'' \<and>
   fst (setActiveLink (ascii ''about'') (example_nav 1024)) = [(0, False), (1, True)] \<and>
   fst (setActiveLink (ascii ''about'') (snd (setActiveLink (ascii ''about'') (example_nav 1024))))
     = [] \<and>
   currentSection (example_nav 1024) = ascii ''home'' \<and>
   setActiveLink (ascii ''home'') (example_nav 1024) = ([], example_nav 1024)"
  using setActiveLink_twice [of "ascii ''about''" "example_nav 1024"]
    setActiveLink_twice [of "ascii ''home''" "example_nav 1024"]
  by (simp add: example_nav_def initial_nav_def example_links_def setActiveLink_def
      enumerate_simps ascii_def)

text \<open>
  Two calls do not always make one pass over the class lists: on the page as it
  starts, two calls with \<^verbatim>\<open>home\<close> make no \<^verbatim>\<open>classList\<close> call at all, although
  there are two nav links and the \<^verbatim>\<open>home\<close> link does not carry \<^verbatim>\<open>active\<close>.
\<close>

theorem setActiveLink_home_twice_counterexample:
  "fst (setActiveLink (ascii ''home'') (example_nav 1024)) @
   fst (setActiveLink (ascii ''home'')
          (snd (setActiveLink (ascii ''home'') (example_nav 1024)))) = [] \<and>
   length (navLinkItems (example_nav 1024)) = 2 \<and>
   map link_classList
     (navLinkItems (snd (setActiveLink (ascii ''home'')
          (snd (setActiveLink (ascii ''home'') (example_nav 1024)))))) =
     [[ascii ''nav-link''], [ascii ''nav-link'']]"
  by (simp add: example_nav_def initial_nav_def example_links_def setActiveLink_def)

lemma activeState_callback_same:
  "currentSection s = sid \<Longrightarrow> list_all (\<lambda>e. isIntersecting e \<longrightarrow> target_id e = sid) es \<Longrightarrow>
     activeState_callback es s = ([], s)"
  by (induction es) (simp_all add: setActiveLink_def)

lemma activeState_callbacks_same:
  "currentSection s = sid \<Longrightarrow>
   list_all (list_all (\<lambda>e. isIntersecting e \<longrightarrow> target_id e = sid)) ess \<Longrightarrow>
     activeState_callbacks ess s = ([], s)"
  by (induction ess) (simp_all add: activeState_callback_same)

text \<open>
  C10. \<^verbatim>\<open>currentSection\<close> starts as \<^verbatim>\<open>home\<close>, so on the state the script starts in
  \<^verbatim>\<open>setActiveLink('home')\<close> makes no \<^verbatim>\<open>classList\<close> call and changes nothing, and so
  does every run of observer callbacks whose intersecting entries are all for the
  section \<^verbatim>\<open>home\<close>: no nav link, the \<^verbatim>\<open>home\<close> link included, gains \<^verbatim>\<open>active\<close>
  before another section has been the active one.
\<close>

theorem home_not_activated_first:
  "list_all (list_all (\<lambda>e. isIntersecting e \<longrightarrow> target_id e = ascii ''home'')) ess \<Longrightarrow>
     setActiveLink (ascii ''home'') (initial_nav tcs ncs ov links w) =
       ([], initial_nav tcs ncs ov links w) \<and>
     activeState_callbacks ess (initial_nav tcs ncs ov links w) =
       ([], initial_nav tcs ncs ov links w) \<and>
     setActiveLink (ascii ''home'')
       (snd (activeState_callbacks ess (initial_nav tcs ncs ov links w))) =
       ([], initial_nav tcs ncs ov links w)"
proof -
  assume a: "list_all (list_all (\<lambda>e. isIntersecting e \<longrightarrow> target_id e = ascii ''home'')) ess"
  have cur: "currentSection (initial_nav tcs ncs ov links w) = ascii ''home''"
    by (simp add: initial_nav_def)
  have one: "setActiveLink (ascii ''home'') (initial_nav tcs ncs ov links w) =
      ([], initial_nav tcs ncs ov links w)"
    using cur by (simp add: setActiveLink_def)
  have run: "activeState_callbacks ess (initial_nav tcs ncs ov links w) =
      ([], initial_nav tcs ncs ov links w)"
    using cur a by (rule activeState_callbacks_same)
  show ?thesis
    using one run by simp
qed

theorem home_not_activated_first_witness:
  "list_all (list_all (\<lambda>e. \<not> isIntersecting e \<or> target_id e = ascii ''home''))
     [[\<lparr>target_id = ascii ''home'', isIntersecting = True\<rparr>,
       \<lparr>target_id = ascii ''about'', isIntersecting = False\<rparr>],
      [\<lparr>target_id = ascii ''home'', isIntersecting = True\<rparr>]] \<and>
   activeState_callbacks
     [[\<lparr>target_id = ascii ''home'', isIntersecting = True\<rparr>,
       \<lparr>target_id = ascii ''about'', isIntersecting = False\<rparr>],
      [\<lparr>target_id = ascii ''home'', isIntersecting = True\<rparr>]] (example_nav 1024) =
     ([], example_nav 1024) \<and>
   map link_classList (navLinkItems (example_nav 1024)) =
     [[ascii ''nav-link''], [ascii ''nav-link'']]"
  using home_not_activated_first
    [of "[[\<lparr>target_id = ascii ''home'', isIntersecting = True\<rparr>,
           \<lparr>target_id = ascii ''about'', isIntersecting = False\<rparr>],
          [\<lparr>target_id = ascii ''home'', isIntersecting = True\<rparr>]]"
       "[ascii ''mobile-toggle'']" "[ascii ''nav-links'']" "[]" example_links 1024]
  by (simp add: example_nav_def example_links_def initial_nav_def)

section \<open>Properties of the reveal animations\<close>

lemma reveal_callback_classList:
  "reveal_classList (reveal_callback i es s) = reveal_classList s"
  by (induction es arbitrary: i s) simp_all

lemma reveal_callback_observing:
  "set (observing (reveal_callback i es s)) \<subseteq> set (observing s)"
proof (induction es arbitrary: i s)
  case Nil
  show ?case by simp
next
  case (Cons e es)
  show ?case
  proof (cases "entry_isIntersecting e")
    case True
    have "set (observing (reveal_callback (Suc i) es
        (s\<lparr>reveal_timeouts := reveal_timeouts s @ [(i * 50, entry_target e)],
           observing := removeAll (entry_target e) (observing s)\<rparr>)))
        \<subseteq> set (removeAll (entry_target e) (observing s))"
      using Cons.IH [of "Suc i" "s\<lparr>reveal_timeouts := reveal_timeouts s @ [(i * 50, entry_target e)],
           observing := removeAll (entry_target e) (observing s)\<rparr>"] by simp
    with True show ?thesis by auto
  next
    case False
    with Cons.IH [of "Suc i" s] show ?thesis by simp
  qed
qed

lemma reveal_callback_timeouts_unobserved:
  "timeouts_unobserved s \<Longrightarrow> timeouts_unobserved (reveal_callback i es s)"
proof (induction es arbitrary: i s)
  case Nil
  then show ?case by simp
next
  case (Cons e es)
  show ?case
  proof (cases "entry_isIntersecting e")
    case True
    have "timeouts_unobserved
        (s\<lparr>reveal_timeouts := reveal_timeouts s @ [(i * 50, entry_target e)],
           observing := removeAll (entry_target e) (observing s)\<rparr>)"
      using Cons.prems by (auto simp: timeouts_unobserved_def list_all_iff)
    then show ?thesis
      using True Cons.IH by simp
  next
    case False
    then show ?thesis using Cons by simp
  qed
qed

lemma shown_reveal_timeout:
  "shown el (reveal_timeout t s) \<longleftrightarrow> shown el s \<or> (el = t \<and> t < length (reveal_classList s))"
  by (auto simp: shown_def reveal_timeout_def classList_add_def nth_list_update)

lemma observing_reveal_timeout: "observing (reveal_timeout t s) = observing s"
  by (simp add: reveal_timeout_def)

lemma timeouts_reveal_timeout: "reveal_timeouts (reveal_timeout t s) = reveal_timeouts s"
  by (simp add: reveal_timeout_def)

lemma shown_reveal_callback: "shown el (reveal_callback i es s) = shown el s"
  by (simp add: shown_def reveal_callback_classList)

lemma shown_step: "shown el s \<Longrightarrow> shown el (reveal_step ev s)"
  by (cases ev) (simp_all add: shown_reveal_callback shown_reveal_timeout, simp add: shown_def)

lemma observing_step: "set (observing (reveal_step ev s)) \<subseteq> set (observing s)"
  by (cases ev) (simp_all add: reveal_callback_observing observing_reveal_timeout)

lemma timeouts_unobserved_step:
  "timeouts_unobserved s \<Longrightarrow> timeouts_unobserved (reveal_step ev s)"
proof (cases ev)
  case (Intersection es)
  assume "timeouts_unobserved s"
  then show ?thesis
    using Intersection by (simp add: reveal_callback_timeouts_unobserved)
next
  case (Timeout k)
  assume a: "timeouts_unobserved s"
  have "set (take k (reveal_timeouts s) @ drop (Suc k) (reveal_timeouts s)) \<subseteq> set (reveal_timeouts s)"
    using set_take_subset [of k "reveal_timeouts s"] set_drop_subset [of "Suc k" "reveal_timeouts s"]
    by auto
  then show ?thesis
    using a Timeout
    by (auto simp: timeouts_unobserved_def list_all_iff observing_reveal_timeout
        timeouts_reveal_timeout)
qed

lemma gained_step:
  assumes "timeouts_unobserved s" "shown el (reveal_step ev s)" "\<not> shown el s"
  shows "el \<notin> set (observing (reveal_step ev s))"
proof (cases ev)
  case (Intersection es)
  then show ?thesis using assms by (simp add: shown_reveal_callback)
next
  case (Timeout k)
  show ?thesis
  proof (cases "k < length (reveal_timeouts s)")
    case False
    then show ?thesis using assms Timeout by simp
  next
    case True
    define s' where
      "s' = s\<lparr>reveal_timeouts := take k (reveal_timeouts s) @ drop (Suc k) (reveal_timeouts s)\<rparr>"
    have "shown el (reveal_timeout (snd (reveal_timeouts s ! k)) s')"
      using assms(2) Timeout True by (simp add: s'_def)
    then have "shown el s' \<or> el = snd (reveal_timeouts s ! k)"
      by (simp only: shown_reveal_timeout) blast
    moreover have "shown el s' = shown el s"
      by (simp add: shown_def s'_def)
    ultimately have "el = snd (reveal_timeouts s ! k)"
      using assms(3) by simp
    moreover have "snd (reveal_timeouts s ! k) \<notin> set (observing s)"
      using assms(1) True by (simp add: timeouts_unobserved_def list_all_length)
    ultimately show ?thesis
      using observing_step [of ev s] by auto
  qed
qed

lemma shown_run: "shown el s \<Longrightarrow> shown el (reveal_run evs s)"
  by (induction evs arbitrary: s) (simp_all add: shown_step)

lemma observing_run: "set (observing (reveal_run evs s)) \<subseteq> set (observing s)"
proof (induction evs arbitrary: s)
  case Nil
  show ?case by simp
next
  case (Cons ev evs)
  show ?case
    using Cons.IH [of "reveal_step ev s"] observing_step [of ev s] by auto
qed

lemma timeouts_unobserved_run:
  "timeouts_unobserved s \<Longrightarrow> timeouts_unobserved (reveal_run evs s)"
  by (induction evs arbitrary: s) (simp_all add: timeouts_unobserved_step)

lemma gained_run:
  "timeouts_unobserved s \<Longrightarrow> shown el (reveal_run evs s) \<Longrightarrow> \<not> shown el s \<Longrightarrow>
     el \<notin> set (observing (reveal_run evs s))"
proof (induction evs arbitrary: s)
  case Nil
  then show ?case by simp
next
  case (Cons ev evs)
  show ?case
  proof (cases "shown el (reveal_step ev s)")
    case True
    then have "el \<notin> set (observing (reveal_step ev s))"
      using gained_step Cons.prems by blast
    then show ?thesis
      using observing_run [of evs "reveal_step ev s"] by auto
  next
    case False
    then show ?thesis
      using Cons.IH [of "reveal_step ev s"] Cons.prems timeouts_unobserved_step by simp
  qed
qed

lemma reveal_run_append: "reveal_run (evs @ evs') s = reveal_run evs' (reveal_run evs s)"
  by (induction evs arbitrary: s) simp_all

lemma reveal_trace_head: "\<exists>rest. reveal_trace evs s = s # rest"
  by (cases evs) simp_all

lemma rises_trace:
  "rises (map (shown el) (reveal_trace evs s)) \<le> (if shown el s then 0 else 1)"
proof (induction evs arbitrary: s)
  case Nil
  show ?case by simp
next
  case (Cons ev evs)
  obtain rest where rest: "reveal_trace evs (reveal_step ev s) = reveal_step ev s # rest"
    using reveal_trace_head by blast
  have ih: "rises (map (shown el) (reveal_step ev s # rest)) \<le>
      (if shown el (reveal_step ev s) then 0 else 1)"
    using Cons.IH [of "reveal_step ev s"] by (simp only: rest)
  show ?case
  proof (cases "shown el s")
    case True
    then have "shown el (reveal_step ev s)" by (rule shown_step)
    with True ih show ?thesis by (simp add: rest)
  next
    case False
    with ih show ?thesis by (cases "shown el (reveal_step ev s)") (simp_all add: rest)
  qed
qed

lemma timeouts_unobserved_init: "timeouts_unobserved (revealAnimations_init classes)"
  by (simp add: timeouts_unobserved_def revealAnimations_init_def)

text \<open>
  C4. On the state \<^verbatim>\<open>revealAnimations.init\<close> sets up, through every run of observer
  batches and timeouts: an element that carries \<^verbatim>\<open>show\<close> carries it after every
  continuation of the run; an element that has gained \<^verbatim>\<open>show\<close> is not observed, then
  and ever after; and the element goes from not shown to shown at most once in the run.
\<close>

theorem reveal_once:
  "(shown el (reveal_run evs (revealAnimations_init classes)) \<longrightarrow>
      shown el (reveal_run (evs @ evs') (revealAnimations_init classes))) \<and>
   (shown el (reveal_run evs (revealAnimations_init classes)) \<and>
    \<not> shown el (revealAnimations_init classes) \<longrightarrow>
      el \<notin> set (observing (reveal_run evs (revealAnimations_init classes))) \<and>
      el \<notin> set (observing (reveal_run (evs @ evs') (revealAnimations_init classes)))) \<and>
   rises (map (shown el) (reveal_trace evs (revealAnimations_init classes))) \<le> 1"
proof -
  let ?s = "revealAnimations_init classes"
  have a: "shown el (reveal_run evs ?s) \<Longrightarrow> shown el (reveal_run (evs @ evs') ?s)"
    by (simp add: reveal_run_append shown_run)
  have b: "el \<notin> set (observing (reveal_run evs ?s))"
    if "shown el (reveal_run evs ?s)" "\<not> shown el ?s"
    using gained_run [OF timeouts_unobserved_init that] .
  have c: "el \<notin> set (observing (reveal_run (evs @ evs') ?s))"
    if "shown el (reveal_run evs ?s)" "\<not> shown el ?s"
    using b [OF that] observing_run [of evs' "reveal_run evs ?s"]
    by (auto simp: reveal_run_append)
  have d: "rises (map (shown el) (reveal_trace evs ?s)) \<le> 1"
    using rises_trace [of el evs ?s] by (simp split: if_splits)
  show ?thesis using a b c d by blast
qed

theorem reveal_once_witness:
  "shown 1
     (reveal_run
        [Intersection [\<lparr>entry_target = 0, entry_isIntersecting = False\<rparr>,
                       \<lparr>entry_target = 1, entry_isIntersecting = True\<rparr>], Timeout 0]
        (revealAnimations_init [[ascii ''reveal''], [ascii ''reveal'']])) \<and>
   \<not> shown 1 (revealAnimations_init [[ascii ''reveal''], [ascii ''reveal'']]) \<and>
   shown 1
     (reveal_run
        ([Intersection [\<lparr>entry_target = 0, entry_isIntersecting = False\<rparr>,
                        \<lparr>entry_target = 1, entry_isIntersecting = True\<rparr>], Timeout 0] @
         [Intersection [\<lparr>entry_target = 1, entry_isIntersecting = False\<rparr>],
          Intersection [\<lparr>entry_target = 1, entry_isIntersecting = True\<rparr>], Timeout 0])
        (revealAnimations_init [[ascii ''reveal''], [ascii ''reveal'']])) \<and>
   observing
     (reveal_run
        [Intersection [\<lparr>entry_target = 0, entry_isIntersecting = False\<rparr>,
                       \<lparr>entry_target = 1, entry_isIntersecting = True\<rparr>], Timeout 0]
        (revealAnimations_init [[ascii ''reveal''], [ascii ''reveal'']])) = [0] \<and>
   reveal_timeouts
     (reveal_run
        [Intersection [\<lparr>entry_target = 0, entry_isIntersecting = False\<rparr>,
                       \<lparr>entry_target = 1, entry_isIntersecting = True\<rparr>]]
        (revealAnimations_init [[ascii ''reveal''], [ascii ''reveal'']])) = [(50, 1)]"
  using reveal_once
    [of 1 "[Intersection [\<lparr>entry_target = 0, entry_isIntersecting = False\<rparr>,
                          \<lparr>entry_target = 1, entry_isIntersecting = True\<rparr>], Timeout 0]"
        "[[ascii ''reveal''], [ascii ''reveal'']]"
        "[Intersection [\<lparr>entry_target = 1, entry_isIntersecting = False\<rparr>],
          Intersection [\<lparr>entry_target = 1, entry_isIntersecting = True\<rparr>], Timeout 0]"]
  by (simp add: revealAnimations_init_def reveal_timeout_def shown_def classList_add_def
      ascii_def upt_rec_numeral)

section \<open>Properties of the contact form\<close>

lemma ends_Chr_iff:
  "y \<in> set (ends (Chr c) (p, xs)) \<longleftrightarrow> (\<exists>xs'. xs = c # xs' \<and> y = (Suc p, xs'))"
  by (cases xs) auto

lemma ends_Bol_iff: "y \<in> set (ends Bol (p, xs)) \<longleftrightarrow> p = 0 \<and> y = (p, xs)"
  by auto

lemma ends_Eol_iff: "y \<in> set (ends Eol (p, xs)) \<longleftrightarrow> xs = [] \<and> y = (p, xs)"
  by auto

lemma ends_Seq_iff:
  "y \<in> set (ends (Seq r1 r2) st) \<longleftrightarrow> (\<exists>m \<in> set (ends r1 st). y \<in> set (ends r2 m))"
  by (cases st) auto

lemma class_plain: "(\<not> list_ex (class_item_matches c) [Space, Lit 0x40]) = plain c"
  by (simp add: plain_def)

lemma ends_Plus_class_Nil: "ends (Plus (NegClass [Space, Lit 0x40])) (p, []) = []"
  by simp

lemma ends_Plus_class_Cons:
  "ends (Plus (NegClass [Space, Lit 0x40])) (p, x # xs) =
     (if plain x then (Suc p, xs) # ends (Plus (NegClass [Space, Lit 0x40])) (Suc p, xs) else [])"
  by (simp add: plain_def)

lemma ends_Plus_class_iff:
  "(q, rest) \<in> set (ends (Plus (NegClass [Space, Lit 0x40])) (p, xs)) \<longleftrightarrow>
     (\<exists>w. w \<noteq> [] \<and> list_all plain w \<and> xs = w @ rest \<and> q = p + length w)"
proof (induction xs arbitrary: p)
  case Nil
  show ?case by (simp only: ends_Plus_class_Nil) (simp del: ends.simps)
next
  case (Cons x xs)
  show ?case
  proof (cases "plain x")
    case False
    have "\<not> (\<exists>w. w \<noteq> [] \<and> list_all plain w \<and> x # xs = w @ rest \<and> q = p + length w)"
    proof
      assume "\<exists>w. w \<noteq> [] \<and> list_all plain w \<and> x # xs = w @ rest \<and> q = p + length w"
      then obtain w where w: "w \<noteq> []" "list_all plain w" "x # xs = w @ rest" by blast
      then obtain w' where "w = x # w'" by (cases w) auto
      with w False show False by simp
    qed
    with False show ?thesis by (simp only: ends_Plus_class_Cons) (simp del: ends.simps)
  next
    case True
    have "(q, rest) \<in> set (ends (Plus (NegClass [Space, Lit 0x40])) (p, x # xs)) \<longleftrightarrow>
        (q, rest) = (Suc p, xs) \<or>
        (\<exists>w. w \<noteq> [] \<and> list_all plain w \<and> xs = w @ rest \<and> q = Suc p + length w)"
      using True Cons.IH [of "Suc p"] by (simp only: ends_Plus_class_Cons) (simp del: ends.simps)
    also have "\<dots> \<longleftrightarrow> (\<exists>w. w \<noteq> [] \<and> list_all plain w \<and> x # xs = w @ rest \<and> q = p + length w)"
    proof
      assume "(q, rest) = (Suc p, xs) \<or>
        (\<exists>w. w \<noteq> [] \<and> list_all plain w \<and> xs = w @ rest \<and> q = Suc p + length w)"
      then show "\<exists>w. w \<noteq> [] \<and> list_all plain w \<and> x # xs = w @ rest \<and> q = p + length w"
      proof
        assume "(q, rest) = (Suc p, xs)"
        then show ?thesis using True by (intro exI [of _ "[x]"]) simp
      next
        assume "\<exists>w. w \<noteq> [] \<and> list_all plain w \<and> xs = w @ rest \<and> q = Suc p + length w"
        then obtain w where "w \<noteq> []" "list_all plain w" "xs = w @ rest" "q = Suc p + length w"
          by blast
        then show ?thesis using True by (intro exI [of _ "x # w"]) simp
      qed
    next
      assume "\<exists>w. w \<noteq> [] \<and> list_all plain w \<and> x # xs = w @ rest \<and> q = p + length w"
      then obtain w where w: "w \<noteq> []" "list_all plain w" "x # xs = w @ rest" "q = p + length w"
        by blast
      then obtain w' where w': "w = x # w'" by (cases w) auto
      show "(q, rest) = (Suc p, xs) \<or>
        (\<exists>w. w \<noteq> [] \<and> list_all plain w \<and> xs = w @ rest \<and> q = Suc p + length w)"
      proof (cases "w' = []")
        case True
        with w w' show ?thesis by simp
      next
        case False
        with w w' have "w' \<noteq> [] \<and> list_all plain w' \<and> xs = w' @ rest \<and> q = Suc p + length w'"
          by simp
        then show ?thesis by blast
      qed
    qed
    finally show ?thesis .
  qed
qed

lemma ends_emailRegex_iff: "ends emailRegex (0, s) \<noteq> [] \<longleftrightarrow> email_shape s"
proof
  assume "ends emailRegex (0, s) \<noteq> []"
  then obtain y where "y \<in> set (ends emailRegex (0, s))"
    by (cases "ends emailRegex (0, s)") auto
  then obtain m1 m2 m3 m4 m5 m6 where
    m: "m1 \<in> set (ends Bol (0, s))"
       "m2 \<in> set (ends (Plus (NegClass [Space, Lit 0x40])) m1)"
       "m3 \<in> set (ends (Chr 0x40) m2)"
       "m4 \<in> set (ends (Plus (NegClass [Space, Lit 0x40])) m3)"
       "m5 \<in> set (ends (Chr 0x2E) m4)"
       "m6 \<in> set (ends (Plus (NegClass [Space, Lit 0x40])) m5)"
       "y \<in> set (ends Eol m6)"
    unfolding emailRegex_def ends_Seq_iff by blast
  from m(1) have m1: "m1 = (0, s)" by (simp add: ends_Bol_iff)
  obtain q2 r2 where m2: "m2 = (q2, r2)" by (cases m2)
  obtain q3 r3 where m3: "m3 = (q3, r3)" by (cases m3)
  obtain q4 r4 where m4: "m4 = (q4, r4)" by (cases m4)
  obtain q5 r5 where m5: "m5 = (q5, r5)" by (cases m5)
  obtain q6 r6 where m6: "m6 = (q6, r6)" by (cases m6)
  from m(2) obtain l where l: "l \<noteq> []" "list_all plain l" "s = l @ r2"
    unfolding m1 m2 ends_Plus_class_iff by blast
  from m(3) have r2: "r2 = 0x40 # r3"
    unfolding m2 m3 ends_Chr_iff by blast
  from m(4) obtain d where d: "d \<noteq> []" "list_all plain d" "r3 = d @ r4"
    unfolding m3 m4 ends_Plus_class_iff by blast
  from m(5) have r4: "r4 = 0x2E # r5"
    unfolding m4 m5 ends_Chr_iff by blast
  from m(6) obtain t where t: "t \<noteq> []" "list_all plain t" "r5 = t @ r6"
    unfolding m5 m6 ends_Plus_class_iff by blast
  from m(7) have r6: "r6 = []"
    unfolding m6 ends_Eol_iff by blast
  have "s = l @ [0x40] @ d @ [0x2E] @ t"
    using l(3) r2 d(3) r4 t(3) r6 by simp
  with l d t show "email_shape s"
    unfolding email_shape_def by blast
next
  assume "email_shape s"
  then obtain l d t where s: "s = l @ [0x40] @ d @ [0x2E] @ t"
    and l: "l \<noteq> []" "list_all plain l" and d: "d \<noteq> []" "list_all plain d"
    and t: "t \<noteq> []" "list_all plain t"
    unfolding email_shape_def by blast
  have 1: "(0, s) \<in> set (ends Bol (0, s))" by simp
  have 2: "(0 + length l, [0x40] @ d @ [0x2E] @ t) \<in>
      set (ends (Plus (NegClass [Space, Lit 0x40])) (0, s))"
    unfolding ends_Plus_class_iff using l s by blast
  have 3: "(Suc (0 + length l), d @ [0x2E] @ t) \<in>
      set (ends (Chr 0x40) (0 + length l, [0x40] @ d @ [0x2E] @ t))"
    unfolding ends_Chr_iff by simp
  have 4: "(Suc (0 + length l) + length d, [0x2E] @ t) \<in>
      set (ends (Plus (NegClass [Space, Lit 0x40])) (Suc (0 + length l), d @ [0x2E] @ t))"
    unfolding ends_Plus_class_iff using d by blast
  have 5: "(Suc (Suc (0 + length l) + length d), t) \<in>
      set (ends (Chr 0x2E) (Suc (0 + length l) + length d, [0x2E] @ t))"
    unfolding ends_Chr_iff by simp
  have 6: "(Suc (Suc (0 + length l) + length d) + length t, []) \<in>
      set (ends (Plus (NegClass [Space, Lit 0x40])) (Suc (Suc (0 + length l) + length d), t))"
    unfolding ends_Plus_class_iff using t by (intro exI [of _ t]) simp
  have 7: "(Suc (Suc (0 + length l) + length d) + length t, []) \<in>
      set (ends Eol (Suc (Suc (0 + length l) + length d) + length t, []))"
    by simp
  have "(Suc (Suc (0 + length l) + length d) + length t, []) \<in> set (ends emailRegex (0, s))"
    unfolding emailRegex_def ends_Seq_iff
    using 1 2 3 4 5 6 7 by blast
  then show "ends emailRegex (0, s) \<noteq> []" by auto
qed

lemma ends_Bol_later: "0 < p \<Longrightarrow> ends (Seq Bol r) (p, xs) = []"
  by simp

lemma ends_emailRegex_later: "0 < p \<Longrightarrow> ends emailRegex (p, xs) = []"
  unfolding emailRegex_def by (rule ends_Bol_later)

lemma regex_test_emailRegex: "regex_test emailRegex s \<longleftrightarrow> email_shape s"
proof -
  have "regex_test emailRegex s \<longleftrightarrow> ends emailRegex (0, s) \<noteq> []"
  proof
    assume "regex_test emailRegex s"
    then obtain start where "ends emailRegex (start, drop start s) \<noteq> []"
      unfolding regex_test_def list_ex_iff by blast
    then show "ends emailRegex (0, s) \<noteq> []"
      using ends_emailRegex_later [of start "drop start s"] by (cases "start = 0") auto
  next
    assume "ends emailRegex (0, s) \<noteq> []"
    then show "regex_test emailRegex s"
      unfolding regex_test_def list_ex_iff by (intro bexI [of _ 0]) auto
  qed
  then show ?thesis by (simp add: ends_emailRegex_iff)
qed

lemma isValidEmail_shape: "isValidEmail s \<longleftrightarrow> email_shape s"
  by (simp add: isValidEmail_def regex_test_emailRegex)

lemma dropWhile_all: "list_all P (dropWhile P xs) \<longleftrightarrow> dropWhile P xs = []"
proof
  assume a: "list_all P (dropWhile P xs)"
  show "dropWhile P xs = []"
  proof (rule ccontr)
    assume n: "dropWhile P xs \<noteq> []"
    then have "\<not> P (hd (dropWhile P xs))" by (rule hd_dropWhile)
    moreover have "P (hd (dropWhile P xs))"
      using a n by (cases "dropWhile P xs") simp_all
    ultimately show False by simp
  qed
next
  assume e: "dropWhile P xs = []"
  show "list_all P (dropWhile P xs)" by (simp only: e list.pred_inject)
qed

lemma trim_empty_iff: "trim s = [] \<longleftrightarrow> blank s"
proof -
  have "trim s = [] \<longleftrightarrow> list_all js_whitespace (dropWhile js_whitespace s)"
    by (simp add: trim_def dropWhile_eq_Nil_conv list_all_iff)
  also have "\<dots> \<longleftrightarrow> dropWhile js_whitespace s = []"
    by (rule dropWhile_all)
  also have "\<dots> \<longleftrightarrow> blank s"
    by (simp add: blank_def dropWhile_eq_Nil_conv list_all_iff)
  finally show ?thesis .
qed

text \<open>
  C2. \<^verbatim>\<open>validateForm\<close> applies the rules in the order name, email, message: it
  returns true and leaves the state alone when none fails, and otherwise returns false
  after \<^verbatim>\<open>showStatus\<close> with the message of the first rule that fails. The name and
  the message rule fail on a field that is blank (empty once trimmed), the email rule on
  an address that the pattern of \<^verbatim>\<open>isValidEmail\<close> does not match, and the pattern
  matches exactly the strings of the shape \<^verbatim>\<open>local@domain.tld\<close>. \<^verbatim>\<open>showStatus\<close>
  writes the message and the class into the status element when the page has one.
\<close>

theorem validateForm_first_failing_rule:
  "validateForm data s =
     (case first_failing_rule data of
        None \<Rightarrow> (True, s)
      | Some r \<Rightarrow> (False, showStatus (rule_message r) (ascii ''error'') s)) \<and>
   isValidEmail (email data) = email_shape (email data) \<and>
   (trim (name data) = []) = blank (name data) \<and>
   (trim (message data) = []) = blank (message data) \<and>
   (case formStatus s of
      None \<Rightarrow> showStatus msg (ascii ''error'') s = s
    | Some el \<Rightarrow>
        formStatus (showStatus msg (ascii ''error'') s) =
          Some (el\<lparr>status_textContent := msg, status_className := ascii ''form-status error''\<rparr>))"
proof -
  have v: "validateForm data s =
     (case first_failing_rule data of
        None \<Rightarrow> (True, s)
      | Some r \<Rightarrow> (False, showStatus (rule_message r) (ascii ''error'') s))"
    by (simp add: validateForm_def first_failing_rule_def trim_empty_iff isValidEmail_shape)
  have st: "(case formStatus s of
      None \<Rightarrow> showStatus msg (ascii ''error'') s = s
    | Some el \<Rightarrow>
        formStatus (showStatus msg (ascii ''error'') s) =
          Some (el\<lparr>status_textContent := msg, status_className := ascii ''form-status error''\<rparr>))"
    by (simp add: showStatus_def ascii_def split: option.splits)
  show ?thesis
    using v st by (simp add: trim_empty_iff isValidEmail_shape)
qed

theorem validateForm_first_failing_rule_witness:
  "validateForm \<lparr>name = [], email = ascii ''a@b.com'', message = ascii ''hi''\<rparr> example_form =
     (False, showStatus (ascii ''Please enter your name.'') (ascii ''error'') example_form) \<and>
   first_failing_rule \<lparr>name = [], email = ascii ''a@b.com'', message = ascii ''hi''\<rparr> =
     Some NameRule \<and>
   validateForm \<lparr>name = ascii ''A'', email = ascii ''not-an-email'', message = ascii ''hi''\<rparr>
     example_form =
     (False, showStatus (ascii ''Please enter a valid email address.'') (ascii ''error'')
        example_form) \<and>
   \<not> email_shape (ascii ''not-an-email'') \<and>
   validateForm \<lparr>name = ascii ''A'', email = ascii ''a@b.com'', message = ascii ''hi''\<rparr>
     example_form = (True, example_form) \<and>
   email_shape (ascii ''a@b.com'') \<and>
   status_textContent
     (the (formStatus (snd (validateForm
        \<lparr>name = [], email = ascii ''a@b.com'', message = ascii ''hi''\<rparr> example_form)))) =
     ascii ''Please enter your name.''"
proof -
  have e1: "isValidEmail (ascii ''a@b.com'')"
    by (simp add: isValidEmail_def regex_test_def emailRegex_def ascii_def js_whitespace_def)
  have e2: "\<not> isValidEmail (ascii ''not-an-email'')"
    by (simp add: isValidEmail_def regex_test_def emailRegex_def ascii_def js_whitespace_def)
  have t1: "trim (ascii ''A'') \<noteq> []" "trim (ascii ''hi'') \<noteq> []"
    by (simp_all add: trim_def ascii_def js_whitespace_def)
  have a: "validateForm \<lparr>name = [], email = ascii ''a@b.com'', message = ascii ''hi''\<rparr> example_form =
     (False, showStatus (ascii ''Please enter your name.'') (ascii ''error'') example_form)"
    by (simp add: validateForm_def trim_def)
  have f1: "first_failing_rule \<lparr>name = [], email = ascii ''a@b.com'', message = ascii ''hi''\<rparr> =
     Some NameRule"
    by (simp add: first_failing_rule_def blank_def)
  have b: "validateForm \<lparr>name = ascii ''A'', email = ascii ''not-an-email'', message = ascii ''hi''\<rparr>
     example_form =
     (False, showStatus (ascii ''Please enter a valid email address.'') (ascii ''error'')
        example_form)"
    using e2 t1 by (simp add: validateForm_def)
  have c: "\<not> email_shape (ascii ''not-an-email'')"
    using validateForm_first_failing_rule
      [of "\<lparr>name = ascii ''A'', email = ascii ''not-an-email'', message = ascii ''hi''\<rparr>"
          example_form "[]"] e2
    by simp
  have d: "validateForm \<lparr>name = ascii ''A'', email = ascii ''a@b.com'', message = ascii ''hi''\<rparr>
     example_form = (True, example_form)"
    using e1 t1 by (simp add: validateForm_def)
  have e: "email_shape (ascii ''a@b.com'')"
    using validateForm_first_failing_rule
      [of "\<lparr>name = ascii ''A'', email = ascii ''a@b.com'', message = ascii ''hi''\<rparr>"
          example_form "[]"] e1
    by simp
  have f: "status_textContent
     (the (formStatus (snd (validateForm
        \<lparr>name = [], email = ascii ''a@b.com'', message = ascii ''hi''\<rparr> example_form)))) =
     ascii ''Please enter your name.''"
    by (simp only: a) (simp add: showStatus_def example_form_def)
  show ?thesis
    using a f1 b c d e f by simp
qed

text \<open>
  With the rules read as "not empty", \<^verbatim>\<open>validateForm\<close> does not follow them: for the
  name of one space, a valid address and a message, no rule fails in that reading, and
  \<^verbatim>\<open>validateForm\<close> returns false with the message of the name rule.
\<close>

theorem validateForm_blank_name_counterexample:
  "first_failing_rule_nonempty
     \<lparr>name = ascii '' '', email = ascii ''a@b.com'', message = ascii ''hi''\<rparr> = None \<and>
   validateForm \<lparr>name = ascii '' '', email = ascii ''a@b.com'', message = ascii ''hi''\<rparr>
     example_form =
     (False, showStatus (ascii ''Please enter your name.'') (ascii ''error'') example_form)"
proof -
  have "isValidEmail (ascii ''a@b.com'')"
    by (simp add: isValidEmail_def regex_test_def emailRegex_def ascii_def js_whitespace_def)
  then have e: "email_shape (ascii ''a@b.com'')"
    by (simp add: isValidEmail_shape)
  have n: "ascii '' '' \<noteq> []" "ascii ''hi'' \<noteq> []"
    by (simp_all add: ascii_def)
  have f: "first_failing_rule_nonempty
     \<lparr>name = ascii '' '', email = ascii ''a@b.com'', message = ascii ''hi''\<rparr> = None"
    using e n by (simp add: first_failing_rule_nonempty_def)
  have t: "trim (ascii '' '') = []"
    by (simp add: trim_def ascii_def js_whitespace_def)
  have v: "validateForm \<lparr>name = ascii '' '', email = ascii ''a@b.com'', message = ascii ''hi''\<rparr>
     example_form =
     (False, showStatus (ascii ''Please enter your name.'') (ascii ''error'') example_form)"
    using t by (simp add: validateForm_def)
  show ?thesis using f v by simp
qed

lemma simulateSubmission_now:
  "submitButton (simulateSubmission data s) =
     (submitButton s)\<lparr>button_textContent := ascii ''Sending...'', button_disabled := True\<rparr> \<and>
   form_timeouts (simulateSubmission data s) =
     form_timeouts s @ [(1500, FinishSubmission data (button_textContent (submitButton s)))] \<and>
   formStatus (simulateSubmission data s) = formStatus s \<and>
   name_control (simulateSubmission data s) = name_control s \<and>
   email_control (simulateSubmission data s) = email_control s \<and>
   message_control (simulateSubmission data s) = message_control s"
  by (simp add: simulateSubmission_def Let_def)

lemma FinishSubmission_status:
  assumes "formStatus t = Some el"
  shows "formStatus (run_timeout (FinishSubmission data label) t) =
      Some (el\<lparr>status_textContent :=
                  ascii ''Thanks, '' @ name data @ ascii ''! I'll get back to you at '' @
                  email data @ ascii '' soon.'',
               status_className := ascii ''form-status success''\<rparr>)"
  using assms
  by (simp add: showStatus_def form_reset_def Let_def ascii_def)

lemma FinishSubmission_form:
  "form_entries (run_timeout (FinishSubmission data label) t) =
     \<lparr>name = control_defaultValue (name_control t),
      email = control_defaultValue (email_control t),
      message = control_defaultValue (message_control t)\<rparr> \<and>
   submitButton (run_timeout (FinishSubmission data label) t) =
     (submitButton t)\<lparr>button_textContent := label, button_disabled := False\<rparr>"
  by (simp add: showStatus_def form_reset_def form_entries_def Let_def split: option.splits)

text \<open>
  C3. For data that pass validation (\<^verbatim>\<open>handleSubmit\<close> then calls
  \<^verbatim>\<open>simulateSubmission\<close> on the state as it was): at once the button is disabled and
  labelled \<^verbatim>\<open>Sending...\<close>, and one timeout of 1500 milliseconds is set, the status and
  the controls being left alone. When that timeout runs, in whatever state \<open>t\<close> the
  form is by then: the status element of the page shows the success message, which has
  the name and the email of the data in it as they were submitted, with the class
  \<^verbatim>\<open>form-status success\<close>; every control is back at its default value; and the button
  is enabled and labelled as it was when \<^verbatim>\<open>simulateSubmission\<close> was called.
\<close>

theorem submission_sequence:
  "fst (validateForm data s) \<Longrightarrow>
     (data = form_entries s \<longrightarrow> handleSubmit s = simulateSubmission data s) \<and>
     button_disabled (submitButton (simulateSubmission data s)) \<and>
     button_textContent (submitButton (simulateSubmission data s)) = ascii ''Sending...'' \<and>
     form_timeouts (simulateSubmission data s) =
       form_timeouts s @ [(1500, FinishSubmission data (button_textContent (submitButton s)))] \<and>
     formStatus (simulateSubmission data s) = formStatus s \<and>
     form_entries (simulateSubmission data s) = form_entries s \<and>
     (formStatus t = Some el \<longrightarrow>
        formStatus (run_timeout (FinishSubmission data (button_textContent (submitButton s))) t) =
          Some (el\<lparr>status_textContent :=
                      ascii ''Thanks, '' @ name data @ ascii ''! I'll get back to you at '' @
                      email data @ ascii '' soon.'',
                   status_className := ascii ''form-status success''\<rparr>)) \<and>
     form_entries (run_timeout (FinishSubmission data (button_textContent (submitButton s))) t) =
       \<lparr>name = control_defaultValue (name_control t),
        email = control_defaultValue (email_control t),
        message = control_defaultValue (message_control t)\<rparr> \<and>
     button_textContent
       (submitButton (run_timeout (FinishSubmission data (button_textContent (submitButton s))) t)) =
       button_textContent (submitButton s) \<and>
     \<not> button_disabled
       (submitButton (run_timeout (FinishSubmission data (button_textContent (submitButton s))) t))"
proof -
  assume ok: "fst (validateForm data s)"
  have same: "snd (validateForm data s) = s"
    using ok by (simp add: validateForm_def split: if_splits)
  have h: "handleSubmit s = simulateSubmission data s" if "data = form_entries s"
  proof -
    obtain ok' s' where v: "validateForm (form_entries s) s = (ok', s')"
      by (cases "validateForm (form_entries s) s")
    with ok same that have "ok'" "s' = s" by simp_all
    with v that show ?thesis by (simp add: handleSubmit_def)
  qed
  have now: "button_disabled (submitButton (simulateSubmission data s)) \<and>
     button_textContent (submitButton (simulateSubmission data s)) = ascii ''Sending...'' \<and>
     form_timeouts (simulateSubmission data s) =
       form_timeouts s @ [(1500, FinishSubmission data (button_textContent (submitButton s)))] \<and>
     formStatus (simulateSubmission data s) = formStatus s \<and>
     form_entries (simulateSubmission data s) = form_entries s"
    using simulateSubmission_now [of data s] by (simp add: form_entries_def)
  have later: "form_entries (run_timeout (FinishSubmission data (button_textContent (submitButton s))) t) =
       \<lparr>name = control_defaultValue (name_control t),
        email = control_defaultValue (email_control t),
        message = control_defaultValue (message_control t)\<rparr> \<and>
     button_textContent
       (submitButton (run_timeout (FinishSubmission data (button_textContent (submitButton s))) t)) =
       button_textContent (submitButton s) \<and>
     \<not> button_disabled
       (submitButton (run_timeout (FinishSubmission data (button_textContent (submitButton s))) t))"
    using FinishSubmission_form [of data "button_textContent (submitButton s)" t]
    by (simp del: run_timeout.simps)
  show ?thesis
    using h now later FinishSubmission_status [of t el data "button_textContent (submitButton s)"]
    by (simp del: run_timeout.simps)
qed

theorem submission_sequence_witness:
  "fst (validateForm (form_entries filled_form) filled_form) \<and>
   formStatus (handleSubmit filled_form) =
     Some \<lparr>status_textContent = [], status_className = ascii ''form-status''\<rparr> \<and>
   submitButton (handleSubmit filled_form) =
     \<lparr>button_textContent = ascii ''Sending...'', button_disabled = True\<rparr> \<and>
   form_timeouts (handleSubmit filled_form) =
     [(1500, FinishSubmission (form_entries filled_form) (ascii ''Send Message''))] \<and>
   formStatus
     (run_timeout (FinishSubmission (form_entries filled_form) (ascii ''Send Message''))
        (handleSubmit filled_form)) =
     Some \<lparr>status_textContent =
             ascii ''Thanks, Ada L! I'll get back to you at ada@math.org soon.'',
           status_className = ascii ''form-status success''\<rparr> \<and>
   form_entries
     (run_timeout (FinishSubmission (form_entries filled_form) (ascii ''Send Message''))
        (handleSubmit filled_form)) = \<lparr>name = [], email = [], message = []\<rparr> \<and>
   submitButton
     (run_timeout (FinishSubmission (form_entries filled_form) (ascii ''Send Message''))
        (handleSubmit filled_form)) =
     \<lparr>button_textContent = ascii ''Send Message'', button_disabled = False\<rparr>"
proof -
  have e: "isValidEmail (ascii ''ada@math.org'')"
    by (simp add: isValidEmail_def regex_test_def emailRegex_def ascii_def js_whitespace_def)
  have t: "trim (ascii ''Ada L'') \<noteq> []" "trim (ascii ''hello there'') \<noteq> []"
    by (simp_all add: trim_def ascii_def js_whitespace_def)
  have ok: "fst (validateForm (form_entries filled_form) filled_form)"
    using e t by (simp add: validateForm_def form_entries_def filled_form_def)
  have st0: "formStatus filled_form =
      Some \<lparr>status_textContent = [], status_className = ascii ''form-status''\<rparr>"
    by (simp add: filled_form_def example_form_def)
  note seq0 = submission_sequence [OF ok, of filled_form]
  have h: "handleSubmit filled_form = simulateSubmission (form_entries filled_form) filled_form"
    using seq0 by simp
  have st1: "formStatus (handleSubmit filled_form) =
      Some \<lparr>status_textContent = [], status_className = ascii ''form-status''\<rparr>"
    using seq0 st0 by (simp only: h)
  have b0: "button_textContent (submitButton filled_form) = ascii ''Send Message''"
    by (simp add: filled_form_def example_form_def)
  have d0: "control_defaultValue (name_control (handleSubmit filled_form)) = []"
    "control_defaultValue (email_control (handleSubmit filled_form)) = []"
    "control_defaultValue (message_control (handleSubmit filled_form)) = []"
    by (simp_all only: h) (simp_all add: simulateSubmission_def Let_def filled_form_def example_form_def)
  have n0: "name (form_entries filled_form) = ascii ''Ada L''"
    "email (form_entries filled_form) = ascii ''ada@math.org''"
    by (simp_all add: form_entries_def filled_form_def)
  note seq1 = submission_sequence
    [OF ok, of "handleSubmit filled_form"
       "\<lparr>status_textContent = [], status_className = ascii ''form-status''\<rparr>", THEN conjunct2]
  have sb: "submitButton (handleSubmit filled_form) =
     \<lparr>button_textContent = ascii ''Sending...'', button_disabled = True\<rparr>"
    by (simp only: h) (simp add: simulateSubmission_def Let_def filled_form_def example_form_def)
  have ft: "form_timeouts (handleSubmit filled_form) =
     [(1500, FinishSubmission (form_entries filled_form) (ascii ''Send Message''))]"
    using seq0 b0 by (simp only: h) (simp add: filled_form_def example_form_def)
  have fs: "formStatus
     (run_timeout (FinishSubmission (form_entries filled_form) (ascii ''Send Message''))
        (handleSubmit filled_form)) =
     Some \<lparr>status_textContent =
             ascii ''Thanks, Ada L! I'll get back to you at ada@math.org soon.'',
           status_className = ascii ''form-status success''\<rparr>"
    using seq1 st1 by (simp only: b0 n0) (simp add: ascii_def del: run_timeout.simps)
  have fe: "form_entries
     (run_timeout (FinishSubmission (form_entries filled_form) (ascii ''Send Message''))
        (handleSubmit filled_form)) = \<lparr>name = [], email = [], message = []\<rparr>"
    using seq1 by (simp only: b0 d0)
  have fb: "submitButton
     (run_timeout (FinishSubmission (form_entries filled_form) (ascii ''Send Message''))
        (handleSubmit filled_form)) =
     \<lparr>button_textContent = ascii ''Send Message'', button_disabled = False\<rparr>"
    using seq1 by (simp only: b0) (simp add: button_element.equality del: run_timeout.simps)
  show ?thesis
    using ok st1 sb ft fs fe fb by simp
qed

end
